(* ===== verification/Broker_Prelude.thy ===== *)
theory Broker_Prelude
  imports Main "HOL-Library.Word" "HOL-Library.Char_ord" "HOL-Library.List_Lexorder"
begin

text \<open>
  Shared vocabulary of the development: the machine integers of the C++ code,
  the exceptions it throws as values of a sum type, and the generic facts about
  byte strings the storage components rest on.  A \<open>std::string\<close> is a HOL
  \<open>string\<close> (a list of 8-bit characters); the order on strings is the
  lexicographic order on unsigned bytes (theories \<open>Char_ord\<close> and
  \<open>List_Lexorder\<close>), which is the byte-wise comparator of the key-value store.
\<close>

unbundle bit_operations_syntax

named_theorems be_simps \<open>equations for the big-endian byte codecs\<close>
named_theorems inv_intros \<open>introduction rules for component invariants\<close>

section \<open>Machine integers and exceptions\<close>

type_synonym u64 = "64 word"
type_synonym u32 = "32 word"
type_synonym u16 = "16 word"

text \<open>A signed 64-bit value is kept as its two's complement bit pattern and compared through
  \<^const>\<open>sint\<close>; a cast between \<open>int64_t\<close> and \<open>uint64_t\<close> keeps the pattern.\<close>

type_synonym i64 = "64 word"

datatype exn =
    InvalidArgument string   \<comment> \<open>\<open>std::invalid_argument\<close>\<close>
  | RuntimeError string      \<comment> \<open>\<open>std::runtime_error\<close>\<close>
  | OtherException string    \<comment> \<open>any other \<open>std::exception\<close>\<close>

type_synonym 'a result = "exn + 'a"

text \<open>\<open>std::min\<close> and \<open>std::max\<close> return their first argument on a tie; on machine words
  that is the usual minimum and maximum.  The signed variants compare as \<open>int64_t\<close>.\<close>

definition smax64 :: "i64 \<Rightarrow> i64 \<Rightarrow> i64" where
  "smax64 a b = (if sint a < sint b then b else a)"

lemma sint_smax64 [simp]: "sint (smax64 a b) = max (sint a) (sint b)"
  by (simp add: smax64_def)

interpretation smax64: abel_semigroup smax64
proof unfold_locales
  show "smax64 (smax64 a b) c = smax64 a (smax64 b c)" for a b c
    by (rule signed_word_eqI [where 'a = int]) (simp add: max.assoc)
  show "smax64 a b = smax64 b a" for a b
    by (rule signed_word_eqI [where 'a = int]) (simp add: max.commute)
qed

lemma foldl_smax64: "foldl smax64 (smax64 a b) xs = smax64 a (foldl smax64 b xs)"
  by (induction xs arbitrary: b) (simp_all add: smax64.assoc)

text \<open>The extremum of a set when one element is merged with a further value.\<close>

lemma min_Min_insert:
  "finite A \<Longrightarrow> min (Min (insert a A)) b = Min (insert (min b (a :: 'a::linorder)) A)"
  by (cases "A = {}") (simp_all add: min.assoc min.commute min.left_commute)

lemma max_Max_insert:
  "finite A \<Longrightarrow> max (Max (insert a A)) b = Max (insert (max b (a :: 'a::linorder)) A)"
  by (cases "A = {}") (simp_all add: max.assoc max.commute max.left_commute)

section \<open>Lexicographic order on strings of equal length\<close>

lemma append_less_iff:
  fixes a b x y :: "'a::linorder list"
  assumes "length a = length b"
  shows "a @ x < b @ y \<longleftrightarrow> a < b \<or> a = b \<and> x < y"
  using assms by (induction a b rule: list_induct2) auto

lemma append_le_iff:
  fixes a b x y :: "'a::linorder list"
  assumes "length a = length b"
  shows "a @ x \<le> b @ y \<longleftrightarrow> a < b \<or> a = b \<and> x \<le> y"
  using assms by (induction a b rule: list_induct2) auto

lemma split_key: "k = take n k @ drop n k"
  by simp

section \<open>Big-endian digit strings\<close>

text \<open>\<open>be_digits k n\<close> is the \<open>k\<close>-byte big-endian representation of \<open>n\<close> (modulo \<open>256^k\<close>);
  \<open>be_value\<close> reads it back.  These are the specification of the two pairs of loops in the
  code that write and read sequence numbers.\<close>

fun be_digits :: "nat \<Rightarrow> nat \<Rightarrow> string" where
  "be_digits 0 n = []"
| "be_digits (Suc k) n = char_of (n div 256 ^ k) # be_digits k n"

definition be_value :: "string \<Rightarrow> nat" where
  "be_value cs = foldl (\<lambda>v c. 256 * v + of_char c) 0 cs"

lemma length_be_digits [simp]: "length (be_digits k n) = k"
  by (induction k) auto

lemma foldl_be_value:
  "foldl (\<lambda>v c. 256 * v + of_char c) a cs = a * 256 ^ length cs + be_value cs"
proof (induction cs arbitrary: a)
  case Nil
  then show ?case by (simp add: be_value_def)
next
  case (Cons c cs)
  have "be_value (c # cs) = of_char c * 256 ^ length cs + be_value cs"
    using Cons.IH [of "of_char c"] by (simp add: be_value_def)
  then show ?case
    using Cons.IH [of "256 * a + of_char c"] by (simp add: algebra_simps)
qed

lemma be_value_Nil [simp]: "be_value [] = 0"
  by (simp add: be_value_def)

lemma be_value_Cons [simp]:
  "be_value (c # cs) = of_char c * 256 ^ length cs + be_value cs"
  using foldl_be_value [of "of_char c" cs] by (simp add: be_value_def)

lemma of_char_lt_256 [simp]: "(of_char c :: nat) < 256"
proof -
  have "(of_char c :: nat) \<in> {0..<256}"
    using range_nat_of_char by blast
  then show ?thesis by simp
qed

lemma be_value_bound: "be_value cs < 256 ^ length cs"
proof (induction cs)
  case (Cons c cs)
  have "of_char c * 256 ^ length cs + be_value cs < (of_char c + 1) * 256 ^ length cs"
    using Cons by simp
  also have "\<dots> \<le> 256 * 256 ^ length cs"
  proof (rule mult_right_mono)
    show "(of_char c :: nat) + 1 \<le> 256" using of_char_lt_256 [of c] by linarith
  qed simp
  finally show ?case by simp
qed simp

lemma be_value_digits: "be_value (be_digits k n) = n mod 256 ^ k"
proof (induction k)
  case (Suc k)
  have "n mod 256 ^ Suc k = 256 ^ k * (n div 256 ^ k mod 256) + n mod 256 ^ k"
    using mod_mult2_eq [of n "256 ^ k" 256] by (simp add: mult.commute)
  with Suc show ?case by (simp add: mult.commute)
qed simp

lemma be_value_less_iff:
  assumes "length xs = length ys"
  shows "xs < ys \<longleftrightarrow> be_value xs < be_value ys"
  using assms
proof (induction xs ys rule: list_induct2)
  case (Cons x xs y ys)
  let ?B = "256 ^ length xs :: nat"
  have bx: "be_value xs < ?B" and by_: "be_value ys < ?B"
    using be_value_bound [of xs] be_value_bound [of ys] Cons.hyps by auto
  have lt: "a * ?B + be_value u < b * ?B + w"
    if "a < b" "be_value u < ?B" for a b u and w :: nat
  proof -
    have "a * ?B + be_value u < (a + 1) * ?B" using that by simp
    also have "\<dots> \<le> b * ?B" using that by (intro mult_right_mono) auto
    finally show ?thesis by simp
  qed
  consider "x < y" | "y < x" | "x = y" by force
  then show ?case
  proof cases
    case 1
    then have "(of_char x :: nat) < of_char y" by (simp add: less_char_def)
    from lt [OF this bx, of "be_value ys"] 1 Cons.hyps show ?thesis by simp
  next
    case 2
    then have "(of_char y :: nat) < of_char x" by (simp add: less_char_def)
    from lt [OF this by_, of "be_value xs"] 2 Cons.hyps show ?thesis by auto
  next
    case 3
    then show ?thesis using Cons by simp
  qed
qed simp

lemma be_value_inject:
  assumes "length xs = length ys" "be_value xs = be_value ys"
  shows "xs = ys"
  using be_value_less_iff [OF assms(1)] be_value_less_iff [of ys xs] assms
  by (metis less_irrefl linorder_less_linear)

lemma be_digits_value: "length cs = k \<Longrightarrow> be_digits k (be_value cs) = cs"
  by (rule be_value_inject) (use be_value_bound [of cs] in \<open>auto simp: be_value_digits\<close>)

section \<open>The 8-byte codec of a 64-bit word\<close>

definition be64 :: "u64 \<Rightarrow> string" where
  "be64 v = be_digits 8 (unat v)"

definition un_be64 :: "string \<Rightarrow> u64" where
  "un_be64 cs = of_nat (be_value cs)"

lemma length_be64 [simp]: "length (be64 v) = 8"
  by (simp add: be64_def)

lemma unat_u64_bound: "unat (v :: u64) < 256 ^ 8"
  using unsigned_less [of v] by simp

lemma un_be64_be64 [simp, be_simps]: "un_be64 (be64 v) = v"
  using unat_u64_bound [of v] by (simp add: un_be64_def be64_def be_value_digits)

lemma unat_un_be64: "length cs = 8 \<Longrightarrow> unat (un_be64 cs) = be_value cs"
  using be_value_bound [of cs] by (simp add: un_be64_def unsigned_of_nat take_bit_nat_eq_self)

lemma be64_un_be64 [be_simps]: "length cs = 8 \<Longrightarrow> be64 (un_be64 cs) = cs"
  by (simp add: be64_def unat_un_be64 be_digits_value)

lemma be64_less_iff [simp]: "be64 a < be64 b \<longleftrightarrow> a < b"
  using unat_u64_bound [of a] unat_u64_bound [of b]
  by (simp add: be_value_less_iff word_less_nat_alt be64_def be_value_digits)

lemma be64_inject [simp]: "be64 a = be64 b \<longleftrightarrow> a = b"
  by (metis un_be64_be64)

lemma be64_le_iff [simp]: "be64 a \<le> be64 b \<longleftrightarrow> a \<le> b"
  by (simp add: le_less)

lemma less_be64_iff: "length cs = 8 \<Longrightarrow> cs < be64 b \<longleftrightarrow> un_be64 cs < b"
  by (metis be64_less_iff be64_un_be64)

lemma be64_le_iff': "length cs = 8 \<Longrightarrow> be64 b \<le> cs \<longleftrightarrow> b \<le> un_be64 cs"
  by (metis be64_le_iff be64_un_be64)

text \<open>One step of the reading loop: shifting left by a byte and or-ing the next byte in is
  multiplication by 256 and addition.\<close>

lemma shift_or_byte: "push_bit 8 (v :: u64) OR of_nat (of_char c) = 256 * v + of_nat (of_char c)"
proof -
  have "take_bit 8 (of_nat (of_char c) :: u64) = of_nat (of_char c)"
    by (simp flip: of_nat_take_bit add: take_bit_nat_eq_self)
  then have low: "n < 8" if "bit (of_nat (of_char c) :: u64) n" for n
    using that by (metis bit_take_bit_iff)
  have "push_bit 8 v AND of_nat (of_char c) = 0"
    by (rule bit_word_eqI) (auto simp: bit_and_iff bit_push_bit_iff dest: low)
  then have "push_bit 8 v OR of_nat (of_char c) = push_bit 8 v + of_nat (of_char c)"
    by (rule disjunctive_add_eq_or [symmetric])
  then show ?thesis by (simp add: push_bit_eq_mult mult.commute)
qed

lemma byte_of_word: "unat (drop_bit s (v :: u64) AND 0xFF) = unat v div 2 ^ s mod 256"
proof -
  have "drop_bit s v AND 0xFF = take_bit 8 (drop_bit s v)"
    by (simp add: take_bit_eq_mask mask_eq_exp_minus_1)
  moreover have "take_bit 64 (unat v) = unat v"
    using unat_u64_bound [of v] by (simp add: take_bit_nat_eq_self)
  ultimately have "unat (drop_bit s v AND 0xFF) = take_bit 8 (drop_bit s (unat v))"
    by (simp only: unsigned_take_bit_eq unsigned_drop_bit_eq) simp
  then show ?thesis
    by (simp add: drop_bit_eq_div take_bit_eq_mod)
qed

end
