(* ===== verification/Messages.thy ===== *)
theory Messages
  imports Broker_Prelude
begin

text \<open>
  The protocol messages of \<open>uDataPacketBrokerAPI/v1\<close> the broker handles, with the explicit field
  presence of the protobuf edition the files declare: every field is an option, a getter returns
  the value or the field's default, \<open>has_\<close> tests presence and \<open>set_\<close> stores a value.  The wire
  format (\<open>SerializeToString\<close>, \<open>ParseFromString\<close>) belongs to the protobuf library and is a parameter
  of the components that use it.
\<close>

section \<open>Stream identifiers\<close>

record StreamIdentifier =
  si_network :: "string option"
  si_station :: "string option"
  si_channel :: "string option"
  si_location_code :: "string option"

definition empty_identifier :: StreamIdentifier where
  "empty_identifier = \<lparr>si_network = None, si_station = None, si_channel = None,
                       si_location_code = None\<rparr>"

definition field_or :: "'a \<Rightarrow> 'a option \<Rightarrow> 'a" where
  "field_or d f = (case f of None \<Rightarrow> d | Some v \<Rightarrow> v)"

lemma field_or_simps [simp]: "field_or d None = d" "field_or d (Some v) = v"
  by (simp_all add: field_or_def)

definition network :: "StreamIdentifier \<Rightarrow> string" where
  "network i = field_or [] (si_network i)"

definition station :: "StreamIdentifier \<Rightarrow> string" where
  "station i = field_or [] (si_station i)"

definition channel :: "StreamIdentifier \<Rightarrow> string" where
  "channel i = field_or [] (si_channel i)"

text \<open>The only field with a declared non-empty default.\<close>

definition location_code :: "StreamIdentifier \<Rightarrow> string" where
  "location_code i = field_or ''--'' (si_location_code i)"

definition has_location_code :: "StreamIdentifier \<Rightarrow> bool" where
  "has_location_code i \<longleftrightarrow> si_location_code i \<noteq> None"

section \<open>Data packets\<close>

datatype DataType =
    DATA_TYPE_UNKNOWN | DATA_TYPE_INTEGER_32 | DATA_TYPE_FLOAT | DATA_TYPE_DOUBLE
  | DATA_TYPE_TEXT | DATA_TYPE_INTEGER_64

record Timestamp =
  ts_seconds :: i64
  ts_nanos :: u32

text \<open>A \<open>double\<close> is kept as its IEEE 754 binary64 bit pattern.\<close>

type_synonym double_bits = "64 word"

record Packet =
  pk_stream_identifier :: "StreamIdentifier option"
  pk_start_time :: "Timestamp option"
  pk_sampling_rate :: "double_bits option"
  pk_data_type :: "DataType option"
  pk_number_of_samples :: "u32 option"
  pk_data :: "string option"
  pk_sequence_number :: "u64 option"

definition empty_packet :: Packet where
  "empty_packet = \<lparr>pk_stream_identifier = None, pk_start_time = None, pk_sampling_rate = None,
     pk_data_type = None, pk_number_of_samples = None, pk_data = None, pk_sequence_number = None\<rparr>"

definition stream_identifier :: "Packet \<Rightarrow> StreamIdentifier" where
  "stream_identifier p = field_or empty_identifier (pk_stream_identifier p)"

definition sampling_rate :: "Packet \<Rightarrow> double_bits" where
  "sampling_rate p = field_or 0 (pk_sampling_rate p)"

definition sequence_number :: "Packet \<Rightarrow> u64" where
  "sequence_number p = field_or 0 (pk_sequence_number p)"

definition set_sequence_number :: "Packet \<Rightarrow> u64 \<Rightarrow> Packet" where
  "set_sequence_number p n = p\<lparr>pk_sequence_number := Some n\<rparr>"

lemma sequence_number_set [simp]: "sequence_number (set_sequence_number p n) = n"
  by (simp add: sequence_number_def set_sequence_number_def)

lemma stream_identifier_set [simp]:
  "stream_identifier (set_sequence_number p n) = stream_identifier p"
  by (simp add: stream_identifier_def set_sequence_number_def)

section \<open>Comparing a double with zero\<close>

text \<open>The bit pattern of a NaN has all exponent bits set and a non-zero fraction.  The comparison
  \<open>x <= 0\<close> is false on a NaN, true on both zeros and on every negative number.\<close>

definition dbl_is_nan :: "double_bits \<Rightarrow> bool" where
  "dbl_is_nan x \<longleftrightarrow> x AND 0x7FFFFFFFFFFFFFFF > 0x7FF0000000000000"

definition dbl_le_zero :: "double_bits \<Rightarrow> bool" where
  "dbl_le_zero x \<longleftrightarrow> \<not> dbl_is_nan x \<and> (x = 0 \<or> 0x8000000000000000 \<le> x)"

lemma dbl_le_zero_examples:
  "dbl_le_zero 0" "dbl_le_zero 0x8000000000000000"      \<comment> \<open>both zeros\<close>
  "\<not> dbl_le_zero 0x4059000000000000"                    \<comment> \<open>100.0\<close>
  "dbl_le_zero 0xC059000000000000"                      \<comment> \<open>-100.0\<close>
  "\<not> dbl_le_zero 0x7FF8000000000000"                    \<comment> \<open>a quiet NaN\<close>
  "\<not> dbl_le_zero 0x7FF0000000000000" "dbl_le_zero 0xFFF0000000000000" \<comment> \<open>infinities\<close>
  by (simp_all add: dbl_le_zero_def dbl_is_nan_def)

end
