(* ===== verification/Keys.thy ===== *)
theory Keys
  imports Messages
begin

text \<open>
  \<open>src/utilities.cpp\<close> and the key layout of \<open>include/uDataPacketBroker/utilities.hpp\<close>: the
  fixed-width database keys, their decoders, the printed name of a stream and the packet
  validator.  The lemmas show the keys are a faithful, order-preserving encoding of the canonical
  (uppercased, location-folded) identifier and the sequence number.
\<close>

section \<open>The key layout\<close>

definition networkKeyLength :: nat where "networkKeyLength = 8"
definition stationKeyLength :: nat where "stationKeyLength = 8"
definition locationKeyLength :: nat where "locationKeyLength = 8"
definition channelKeyLength :: nat where "channelKeyLength = 8"
definition streamKeyLength :: nat where
  "streamKeyLength = networkKeyLength + stationKeyLength + locationKeyLength + channelKeyLength"
definition sequenceNumberKeyLength :: nat where "sequenceNumberKeyLength = 8"
definition packetKeyLength :: nat where
  "packetKeyLength = streamKeyLength + sequenceNumberKeyLength"

lemmas key_lengths = networkKeyLength_def stationKeyLength_def locationKeyLength_def
  channelKeyLength_def sequenceNumberKeyLength_def

lemma streamKeyLength_32 [simp]: "streamKeyLength = 32"
  by (simp add: streamKeyLength_def key_lengths)

lemma packetKeyLength_40 [simp]: "packetKeyLength = 40"
  by (simp add: packetKeyLength_def sequenceNumberKeyLength_def)

section \<open>Characters and decimal numbers of the C++ library\<close>

text \<open>\<open>std::toupper\<close> in the "C" locale, the only one the program runs in.\<close>

definition toupper :: "char \<Rightarrow> char" where
  "toupper c = (if 97 \<le> (of_char c :: nat) \<and> (of_char c :: nat) \<le> 122
                then char_of ((of_char c :: nat) - 32) else c)"

text \<open>\<open>std::to_string\<close> of an unsigned number.\<close>

fun to_string :: "nat \<Rightarrow> string" where
  "to_string n = (if n < 10 then [char_of (48 + n)]
                  else to_string (n div 10) @ [char_of (48 + n mod 10)])"

declare to_string.simps [simp del]

abbreviation NUL :: char where "NUL \<equiv> CHR 0x00"

section \<open>Encoding\<close>

text \<open>The key is passed by reference: the result is the extended key, or the error with which the
  caller abandons the key.\<close>

definition appendPaddedComponent :: "string \<Rightarrow> string \<Rightarrow> string \<Rightarrow> nat \<Rightarrow> string + string" where
  "appendPaddedComponent key value fieldName width =
     (if value = [] then Inl (fieldName @ '' is empty'')
      else if width < length value
        then Inl (fieldName @ '' '' @ [CHR 0x27] @ value @ [CHR 0x27] @ '' exceeds ''
                  @ to_string width @ '' bytes'')
      else if NUL \<in> set value then Inl (fieldName @ '' contains an embedded null byte'')
      else Inr (key @ map toupper value @ replicate (width - length value) NUL))"

text \<open>The loop \<open>for (shift = 56; shift >= 0; shift -= 8)\<close>.\<close>

function appendBigEndian64_loop :: "string \<Rightarrow> u64 \<Rightarrow> int \<Rightarrow> string" where
  "appendBigEndian64_loop key value shift =
     (if 0 \<le> shift
      then appendBigEndian64_loop
             (key @ [char_of (unat (drop_bit (nat shift) value AND 0xFF))]) value (shift - 8)
      else key)"
  by pat_completeness auto
termination by (relation "measure (\<lambda>(key, value, shift). nat (shift + 8))") auto

declare appendBigEndian64_loop.simps [simp del]

definition appendBigEndian64 :: "string \<Rightarrow> u64 \<Rightarrow> string" where
  "appendBigEndian64 key value = appendBigEndian64_loop key value 56"

text \<open>The loop \<open>for (i = 0; i < 8; ++i)\<close>; callers keep \<open>offset + 8\<close> within the key.\<close>

function readBigEndian64_loop :: "string \<Rightarrow> nat \<Rightarrow> nat \<Rightarrow> u64 \<Rightarrow> u64" where
  "readBigEndian64_loop key offset i value =
     (if i < 8
      then readBigEndian64_loop key offset (Suc i)
             (push_bit 8 value OR of_nat (of_char (key ! (offset + i))))
      else value)"
  by pat_completeness auto
termination by (relation "measure (\<lambda>(key, offset, i, value). 8 - i)") auto

declare readBigEndian64_loop.simps [simp del]

definition readBigEndian64 :: "string \<Rightarrow> nat \<Rightarrow> u64" where
  "readBigEndian64 key offset = readBigEndian64_loop key offset 0 0"

definition readPaddedComponent :: "string \<Rightarrow> nat \<Rightarrow> nat \<Rightarrow> string" where
  "readPaddedComponent key offset width =
     (let slot = take width (drop offset key)
      in if NUL \<in> set slot then takeWhile (\<lambda>c. c \<noteq> NUL) slot else slot)"

definition canonicalLocationCode :: "StreamIdentifier \<Rightarrow> string" where
  "canonicalLocationCode identifier =
     (if has_location_code identifier
      then (let locationCode = location_code identifier
            in if locationCode \<noteq> [] then locationCode else ''--'')
      else ''--'')"

definition toStreamKey :: "StreamIdentifier \<Rightarrow> string + string" where
  "toStreamKey identifier =
     (case appendPaddedComponent [] (network identifier) ''Network'' networkKeyLength of
        Inl e \<Rightarrow> Inl e
      | Inr key \<Rightarrow>
     (case appendPaddedComponent key (station identifier) ''Station'' stationKeyLength of
        Inl e \<Rightarrow> Inl e
      | Inr key \<Rightarrow>
     (case appendPaddedComponent key (canonicalLocationCode identifier) ''Location''
             locationKeyLength of
        Inl e \<Rightarrow> Inl e
      | Inr key \<Rightarrow>
     (case appendPaddedComponent key (channel identifier) ''Channel'' channelKeyLength of
        Inl e \<Rightarrow> Inl e
      | Inr key \<Rightarrow> Inr key))))"

definition toPacketKey :: "StreamIdentifier \<Rightarrow> u64 \<Rightarrow> string + string" where
  "toPacketKey identifier sequenceNumber =
     (case toStreamKey identifier of
        Inl e \<Rightarrow> Inl e
      | Inr key \<Rightarrow> Inr (appendBigEndian64 key sequenceNumber))"

section \<open>Decoding\<close>

text \<open>The identifier is an output parameter: the decoder sets its four fields.\<close>

definition fromStreamKey :: "string \<Rightarrow> StreamIdentifier \<Rightarrow> string + StreamIdentifier" where
  "fromStreamKey key identifier =
     (if length key \<noteq> streamKeyLength
      then Inl (''Stream key has '' @ to_string (length key) @ '' bytes; expected ''
                @ to_string streamKeyLength)
      else
        (let locationCode = readPaddedComponent key (networkKeyLength + stationKeyLength)
                              locationKeyLength
         in Inr (identifier
              \<lparr>si_network := Some (readPaddedComponent key 0 networkKeyLength),
               si_station := Some (readPaddedComponent key networkKeyLength stationKeyLength),
               si_location_code := Some (if locationCode = [] then ''--'' else locationCode),
               si_channel := Some (readPaddedComponent key
                  (networkKeyLength + stationKeyLength + locationKeyLength) channelKeyLength)\<rparr>)))"

definition fromPacketKey ::
  "string \<Rightarrow> StreamIdentifier \<Rightarrow> string + StreamIdentifier \<times> u64" where
  "fromPacketKey key identifier =
     (if length key \<noteq> packetKeyLength
      then Inl (''Packet key has '' @ to_string (length key) @ '' bytes; expected ''
                @ to_string packetKeyLength)
      else (case fromStreamKey (take streamKeyLength key) identifier of
              Inl e \<Rightarrow> Inl e
            | Inr identifier' \<Rightarrow> Inr (identifier', readBigEndian64 key streamKeyLength)))"

section \<open>The printed name of a stream and packet validation\<close>

definition toString :: "StreamIdentifier \<Rightarrow> string" where
  "toString identifier =
     (let result = network identifier @ ''.'' @ station identifier @ ''.''
                   @ channel identifier @ ''.'';
          locationCode = (if has_location_code identifier then location_code identifier else []);
          result = (if locationCode \<noteq> [] then result @ locationCode else result @ ''--'')
      in map toupper result)"

definition isValid :: "Packet \<Rightarrow> string + bool" where
  "isValid packet =
     (if pk_stream_identifier packet = None
        then Inl ''Packet does not have an identifier''
      else let identifier = stream_identifier packet in
      if si_network identifier = None then Inl ''Network not set in packet identifier''
      else if si_station identifier = None then Inl ''Station not set in packet identifier''
      else if si_channel identifier = None then Inl ''Channel not set in packet identifier''
      else if pk_start_time packet = None
        then Inl (toString identifier @ '' does not have a start time.'')
      else if pk_sampling_rate packet = None
        then Inl (toString identifier @ '' does not have a sampling rate.'')
      else if dbl_le_zero (sampling_rate packet)
        then Inl (toString identifier @ '' sampling rate not positive.'')
      else if pk_data_type packet = None
        then Inl (toString identifier @ '' does not have a data type.'')
      else if pk_number_of_samples packet = None
        then Inl (toString identifier @ '' does not have any samples.'')
      else Inr True)"

section \<open>The big-endian loops\<close>

lemma be_digits_map: "be_digits k n = map (\<lambda>j. char_of (n div 256 ^ j)) (rev [0..<k])"
  by (induction k) auto

lemma be64_map: "be64 v = map (\<lambda>j. char_of (unat v div 256 ^ j)) [7, 6, 5, 4, 3, 2, 1, 0]"
  unfolding be64_def be_digits_map by (simp add: upt_rec)

lemma appendBigEndian64_be64 [be_simps]: "appendBigEndian64 key v = key @ be64 v"
proof -
  have "appendBigEndian64 key v =
      key @ map (\<lambda>s. char_of (unat (drop_bit s v AND 0xFF))) [56, 48, 40, 32, 24, 16, 8, 0]"
    by (simp add: appendBigEndian64_def appendBigEndian64_loop.simps)
  also have "map (\<lambda>s. char_of (unat (drop_bit s v AND 0xFF))) [56, 48, 40, 32, 24, 16, 8, 0]
      = be64 v"
    by (simp only: byte_of_word char_of_mod_256 be64_map list.map) simp
  finally show ?thesis .
qed

lemma take_8_nth:
  "off + 8 \<le> length key \<Longrightarrow> take 8 (drop off key) = map (\<lambda>i. key ! (off + i)) [0..<8]"
  by (rule nth_equalityI) auto

lemma readBigEndian64_loop_foldl:
  "readBigEndian64_loop key off i v =
     foldl (\<lambda>v c. push_bit 8 v OR of_nat (of_char c)) v (map (\<lambda>j. key ! (off + j)) [i..<8])"
proof (induction key off i v rule: readBigEndian64_loop.induct)
  case (1 key off i v)
  then show ?case
    by (subst readBigEndian64_loop.simps) (simp add: upt_conv_Cons)
qed

lemma foldl_word_be_value:
  "foldl (\<lambda>v c. 256 * v + of_nat (of_char c)) (of_nat a) cs
   = (of_nat (foldl (\<lambda>v c. 256 * v + of_char c) a cs) :: u64)"
proof (induction cs arbitrary: a)
  case (Cons c cs)
  have "256 * of_nat a + of_nat (of_char c) = (of_nat (256 * a + of_char c) :: u64)"
    by simp
  then show ?case using Cons.IH [of "256 * a + of_char c"] by simp
qed simp

lemma un_be64_foldl: "un_be64 cs = foldl (\<lambda>v c. push_bit 8 v OR of_nat (of_char c)) 0 cs"
  using foldl_word_be_value [of 0 cs] by (simp add: un_be64_def be_value_def shift_or_byte)

lemma readBigEndian64_un_be64 [be_simps]:
  assumes "off + 8 \<le> length key"
  shows "readBigEndian64 key off = un_be64 (take 8 (drop off key))"
  by (simp add: readBigEndian64_def readBigEndian64_loop_foldl un_be64_foldl take_8_nth [OF assms])

section \<open>Fixed-width components\<close>

definition component_ok :: "nat \<Rightarrow> string \<Rightarrow> bool" where
  "component_ok width v \<longleftrightarrow> v \<noteq> [] \<and> length v \<le> width \<and> NUL \<notin> set v"

definition pad :: "nat \<Rightarrow> string \<Rightarrow> string" where
  "pad width v = map toupper v @ replicate (width - length v) NUL"

lemma appendPaddedComponent_ok:
  "component_ok w v \<Longrightarrow> appendPaddedComponent key v f w = Inr (key @ pad w v)"
  by (simp add: appendPaddedComponent_def component_ok_def pad_def)

lemma appendPaddedComponent_Inr_iff:
  "appendPaddedComponent key v f w = Inr key' \<longleftrightarrow> component_ok w v \<and> key' = key @ pad w v"
  by (auto simp: appendPaddedComponent_def component_ok_def pad_def)

lemma length_pad [simp]: "length v \<le> w \<Longrightarrow> length (pad w v) = w"
  by (simp add: pad_def)

lemma of_char_toupper:
  "(of_char (toupper c) :: nat) =
     (if 97 \<le> (of_char c :: nat) \<and> (of_char c :: nat) \<le> 122 then of_char c - 32 else of_char c)"
proof -
  have "((of_char c :: nat) - 32) mod 256 = of_char c - 32"
    by (rule mod_less) (use of_char_lt_256 [of c] in linarith)
  then show ?thesis by (auto simp: toupper_def)
qed

lemma of_char_eq_0_iff: "(of_char c :: nat) = 0 \<longleftrightarrow> c = NUL"
proof -
  have "(of_char NUL :: nat) = 0" by simp
  then show ?thesis by (metis of_char_eq_iff)
qed

lemma NUL_less_iff: "NUL < c \<longleftrightarrow> c \<noteq> NUL"
  unfolding less_char_def of_char_eq_0_iff [symmetric] by simp

lemma not_less_NUL [simp]: "\<not> c < NUL"
  unfolding less_char_def by simp

lemma toupper_NUL_iff [simp]: "toupper c = NUL \<longleftrightarrow> c = NUL"
  unfolding of_char_eq_0_iff [symmetric] of_char_toupper by auto

lemma toupper_toupper [simp]: "toupper (toupper c) = toupper c"
proof (cases "97 \<le> (of_char c :: nat) \<and> (of_char c :: nat) \<le> 122")
  case True
  then have "(of_char (toupper c) :: nat) \<le> 90"
    by (subst of_char_toupper) auto
  then show ?thesis by (simp add: toupper_def [of "toupper c"])
qed (auto simp: toupper_def)

lemma NUL_notin_upper [simp]: "NUL \<notin> toupper ` set v \<longleftrightarrow> NUL \<notin> set v"
  by (metis imageE image_eqI toupper_NUL_iff)

lemma takeWhile_pad:
  "NUL \<notin> set u \<Longrightarrow> takeWhile (\<lambda>c. c \<noteq> NUL) (u @ replicate n NUL) = u"
  by (induction u) (auto simp: takeWhile_eq_Nil_iff hd_replicate)

lemma takeWhile_no_NUL: "NUL \<notin> set xs \<Longrightarrow> takeWhile (\<lambda>c. c \<noteq> NUL) xs = xs"
  by (induction xs) auto

lemma readPaddedComponent_takeWhile:
  "readPaddedComponent key off w = takeWhile (\<lambda>c. c \<noteq> NUL) (take w (drop off key))"
  unfolding readPaddedComponent_def Let_def by (auto simp: takeWhile_no_NUL)

lemma readPaddedComponent_pad:
  assumes "NUL \<notin> set v" "length v \<le> w" "length pre = off"
  shows "readPaddedComponent (pre @ pad w v @ post) off w = map toupper v"
proof -
  have slot: "take w (drop off (pre @ pad w v @ post)) = pad w v"
    using assms by simp
  have "NUL \<notin> set (map toupper v)" using assms(1) by simp
  then show ?thesis
    unfolding readPaddedComponent_takeWhile slot unfolding pad_def by (rule takeWhile_pad)
qed

lemma padded_less_iff:
  assumes "NUL \<notin> set x" "NUL \<notin> set y" "length x \<le> w" "length y \<le> w"
  shows "x @ replicate (w - length x) NUL < y @ replicate (w - length y) NUL \<longleftrightarrow> x < y"
  using assms
proof (induction x arbitrary: y w)
  case Nil
  then show ?case
    by (cases y; cases w) (auto simp: NUL_less_iff)
next
  case (Cons a x)
  then show ?case
    by (cases y; cases w) auto
qed

section \<open>Stream keys are the padded canonical components\<close>

text \<open>The location a stream is filed under: an unset or empty code means "--".\<close>

definition folded_location :: "StreamIdentifier \<Rightarrow> string" where
  "folded_location i = (case si_location_code i of None \<Rightarrow> ''--'' | Some l \<Rightarrow> if l = [] then ''--'' else l)"

lemma canonicalLocationCode_folds: "canonicalLocationCode i = folded_location i"
  by (simp add: canonicalLocationCode_def folded_location_def has_location_code_def location_code_def
      split: option.split)

lemma folded_location_simps [simp]:
  "folded_location \<lparr>si_network = n, si_station = s, si_channel = c, si_location_code = Some l\<rparr> =
     (if l = [] then ''--'' else l)"
  by (simp add: folded_location_def)

definition components :: "StreamIdentifier \<Rightarrow> string list" where
  "components i = [network i, station i, folded_location i, channel i]"

definition keyable :: "StreamIdentifier \<Rightarrow> bool" where
  "keyable i \<longleftrightarrow> list_all (component_ok 8) (components i)"

text \<open>What a key can still tell of an identifier: uppercase codes and the folded location.\<close>

definition canonical :: "StreamIdentifier \<Rightarrow> StreamIdentifier" where
  "canonical i = \<lparr>si_network = Some (map toupper (network i)),
                  si_station = Some (map toupper (station i)),
                  si_channel = Some (map toupper (channel i)),
                  si_location_code = Some (map toupper (folded_location i))\<rparr>"

definition stream_key :: "StreamIdentifier \<Rightarrow> string" where
  "stream_key i = concat (map (pad 8) (components i))"

lemma toStreamKey_Inr_iff: "toStreamKey i = Inr k \<longleftrightarrow> keyable i \<and> k = stream_key i"
  by (auto simp: toStreamKey_def canonicalLocationCode_folds appendPaddedComponent_Inr_iff appendPaddedComponent_ok keyable_def stream_key_def
        components_def key_lengths split: sum.splits)

lemma toStreamKey_keyable [simp]: "keyable i \<Longrightarrow> toStreamKey i = Inr (stream_key i)"
  by (simp add: toStreamKey_Inr_iff)

lemma toPacketKey_Inr_iff:
  "toPacketKey i s = Inr k \<longleftrightarrow> keyable i \<and> k = stream_key i @ be64 s"
  by (auto simp: toPacketKey_def toStreamKey_Inr_iff be_simps split: sum.splits)

lemma toPacketKey_keyable [simp]: "keyable i \<Longrightarrow> toPacketKey i s = Inr (stream_key i @ be64 s)"
  by (simp add: toPacketKey_Inr_iff)

lemma toPacketKey_Inl_iff: "(\<exists>e. toPacketKey i s = Inl e) \<longleftrightarrow> \<not> keyable i"
  by (metis sum.exhaust sum.distinct(1) toPacketKey_Inr_iff)

lemma length_stream_key [simp]: "keyable i \<Longrightarrow> length (stream_key i) = 32"
  by (simp add: keyable_def stream_key_def components_def component_ok_def)

lemma fromStreamKey_stream_key:
  assumes "keyable i"
  shows "fromStreamKey (stream_key i) j = Inr (canonical i)"
proof -
  let ?n = "pad 8 (network i)" and ?s = "pad 8 (station i)"
    and ?l = "pad 8 (folded_location i)" and ?c = "pad 8 (channel i)"
  have ok: "component_ok 8 (network i)" "component_ok 8 (station i)"
      "component_ok 8 (folded_location i)" "component_ok 8 (channel i)"
    using assms by (simp_all add: keyable_def components_def)
  have key: "stream_key i = ?n @ ?s @ ?l @ ?c"
    by (simp add: stream_key_def components_def)
  have "readPaddedComponent (stream_key i) 0 8 = map toupper (network i)"
    using readPaddedComponent_pad [of "network i" 8 "[]" 0 "?s @ ?l @ ?c"] ok
    by (simp add: key component_ok_def)
  moreover have "readPaddedComponent (stream_key i) 8 8 = map toupper (station i)"
    using readPaddedComponent_pad [of "station i" 8 ?n 8 "?l @ ?c"] ok
    by (simp add: key component_ok_def)
  moreover have "readPaddedComponent (stream_key i) 16 8 = map toupper (folded_location i)"
    using readPaddedComponent_pad [of "folded_location i" 8 "?n @ ?s" 16 ?c] ok
    by (simp add: key component_ok_def)
  moreover have "readPaddedComponent (stream_key i) 24 8 = map toupper (channel i)"
    using readPaddedComponent_pad [of "channel i" 8 "?n @ ?s @ ?l" 24 "[]"] ok
    by (simp add: key component_ok_def)
  ultimately show ?thesis
    using assms ok(3) by (simp add: fromStreamKey_def canonical_def key_lengths component_ok_def)
qed

lemma pad_less_iff:
  assumes "component_ok w x" "component_ok w y"
  shows "pad w x < pad w y \<longleftrightarrow> map toupper x < map toupper y"
  using padded_less_iff [of "map toupper x" "map toupper y" w] assms
  by (simp add: pad_def component_ok_def)

lemma pad_eq_iff:
  assumes "component_ok w x" "component_ok w y"
  shows "pad w x = pad w y \<longleftrightarrow> map toupper x = map toupper y"
  using pad_less_iff [OF assms] pad_less_iff [OF assms(2,1)] by (metis neq_iff)

lemma concat_pad_less_iff:
  assumes "list_all (component_ok w) xs" "list_all (component_ok w) ys" "length xs = length ys"
  shows "concat (map (pad w) xs) < concat (map (pad w) ys) \<longleftrightarrow>
         map (map toupper) xs < map (map toupper) ys"
  using assms(3,1,2)
proof (induction xs ys rule: list_induct2)
  case (Cons x xs y ys)
  then have "length (pad w x) = length (pad w y)" by (simp add: component_ok_def)
  with Cons show ?case by (simp add: append_less_iff pad_less_iff pad_eq_iff)
qed simp

lemma stream_key_less_iff:
  assumes "keyable i" "keyable j"
  shows "stream_key i < stream_key j \<longleftrightarrow>
         map (map toupper) (components i) < map (map toupper) (components j)"
  using concat_pad_less_iff [of 8 "components i" "components j"] assms
  by (simp add: stream_key_def keyable_def) (simp add: components_def)

lemma canonical_eq_iff:
  "canonical i = canonical j \<longleftrightarrow>
   map (map toupper) (components i) = map (map toupper) (components j)"
  by (auto simp: canonical_def components_def)

lemma stream_key_eq_iff:
  assumes "keyable i" "keyable j"
  shows "stream_key i = stream_key j \<longleftrightarrow> canonical i = canonical j"
  using stream_key_less_iff [OF assms] stream_key_less_iff [OF assms(2,1)]
  unfolding canonical_eq_iff by (metis neq_iff)

lemma keyable_canonical [simp]: "keyable i \<Longrightarrow> keyable (canonical i)"
  by (auto simp: keyable_def components_def canonical_def component_ok_def network_def station_def
        channel_def)

lemma components_canonical:
  "keyable i \<Longrightarrow> components (canonical i) = map (map toupper) (components i)"
  by (auto simp: keyable_def components_def canonical_def component_ok_def network_def station_def
        channel_def)

lemma stream_key_canonical [simp]: "keyable i \<Longrightarrow> stream_key (canonical i) = stream_key i"
  by (simp add: stream_key_def components_canonical) (simp add: components_def pad_def comp_def)

section \<open>Properties\<close>

text \<open>A concrete identifier, as the unit tests build it.\<close>

definition makeIdentifier :: "string \<Rightarrow> string \<Rightarrow> string \<Rightarrow> string \<Rightarrow> StreamIdentifier" where
  "makeIdentifier n s c l = \<lparr>si_network = Some n, si_station = Some s, si_channel = Some c,
                             si_location_code = Some l\<rparr>"

lemmas identifier_simps = makeIdentifier_def network_def station_def channel_def
  location_code_def has_location_code_def

lemma keyable_makeIdentifier:
  "keyable (makeIdentifier n s c l) \<longleftrightarrow>
     component_ok 8 n \<and> component_ok 8 s \<and> component_ok 8 (if l = [] then ''--'' else l)
     \<and> component_ok 8 c"
  by (auto simp: keyable_def components_def identifier_simps)

lemma keyable_example: "keyable (makeIdentifier ''UU'' ''SRU'' ''HHZ'' ''01'')"
  by (simp add: keyable_makeIdentifier component_ok_def)

text \<open>C16.  Encoding a stream identifier and sequence number as a packet key succeeds exactly when
  every code (network, station, folded location, channel) is non-empty, at most eight bytes long
  and free of null bytes; then the key has 40 bytes and starts with the 32-byte stream key, so a
  stream key is a seek prefix of the packets of its stream.\<close>

theorem packet_key_layout:
  "case toPacketKey i s of
     Inl e \<Rightarrow> toStreamKey i = Inl e \<and> \<not> list_all (component_ok 8) (components i)
   | Inr k \<Rightarrow> list_all (component_ok 8) (components i) \<and> length k = packetKeyLength
              \<and> toStreamKey i = Inr (take streamKeyLength k)"
proof (cases "keyable i")
  case True
  then show ?thesis by (simp flip: keyable_def)
next
  case False
  then obtain e where e: "toPacketKey i s = Inl e" using toPacketKey_Inl_iff by blast
  then have "toStreamKey i = Inl e" by (auto simp: toPacketKey_def split: sum.splits)
  with e False show ?thesis by (simp flip: keyable_def)
qed

text \<open>C15.  Decoding a packet key gives back the canonical identifier (uppercased codes, an unset
  or empty location folded to "--") and the sequence number, whatever the output identifier held
  before; and encoding the decoded pair gives the same key again.\<close>

theorem packet_key_roundtrip:
  assumes "toPacketKey i s = Inr k"
  shows "fromPacketKey k j = Inr (canonical i, s) \<and> toPacketKey (canonical i) s = Inr k"
  using assms
  by (auto simp: toPacketKey_Inr_iff fromPacketKey_def fromStreamKey_stream_key be_simps)

theorem packet_key_roundtrip_witness:
  "\<exists>k. toPacketKey (makeIdentifier ''uu'' ''sru'' ''hhz'' []) 8412 = Inr k \<and>
       fromPacketKey k empty_identifier
         = Inr (makeIdentifier ''UU'' ''SRU'' ''HHZ'' ''--'', 8412)"
proof -
  let ?i = "makeIdentifier ''uu'' ''sru'' ''hhz'' []"
  have "keyable ?i" by (simp add: keyable_makeIdentifier component_ok_def)
  then have "toPacketKey ?i 8412 = Inr (stream_key ?i @ be64 8412)" by simp
  moreover have "canonical ?i = makeIdentifier ''UU'' ''SRU'' ''HHZ'' ''--''"
    by (simp add: canonical_def identifier_simps toupper_def char_of_def bit_simps)
  ultimately show ?thesis
    using packet_key_roundtrip [of ?i 8412 _ empty_identifier] by auto
qed

text \<open>C14.  The byte-wise order of packet keys is the lexicographic order of (network, station,
  location, channel, sequence number), compared on the uppercased codes: the null padding keeps
  the order of codes of different lengths and the big-endian counter the order of numbers.\<close>

theorem packet_key_order:
  assumes "toPacketKey i s = Inr k" "toPacketKey j t = Inr l"
  shows "k < l \<longleftrightarrow>
         map (map toupper) (components i) < map (map toupper) (components j) \<or>
         map (map toupper) (components i) = map (map toupper) (components j) \<and> s < t"
  using assms
  by (auto simp: toPacketKey_Inr_iff append_less_iff stream_key_less_iff stream_key_eq_iff
        canonical_eq_iff)

theorem packet_key_order_witness:
  "\<exists>k l. toPacketKey (makeIdentifier ''UU'' ''SR'' ''HHZ'' ''01'') 9 = Inr k \<and>
         toPacketKey (makeIdentifier ''UU'' ''SRU'' ''HHZ'' ''01'') 1 = Inr l \<and> k < l"
proof -
  let ?i = "makeIdentifier ''UU'' ''SR'' ''HHZ'' ''01''"
    and ?j = "makeIdentifier ''UU'' ''SRU'' ''HHZ'' ''01''"
  have k: "toPacketKey ?i 9 = Inr (stream_key ?i @ be64 9)"
    by (rule toPacketKey_keyable) (simp add: keyable_makeIdentifier component_ok_def)
  have l: "toPacketKey ?j 1 = Inr (stream_key ?j @ be64 1)"
    by (rule toPacketKey_keyable) (simp add: keyable_makeIdentifier component_ok_def)
  have "map (map toupper) (components ?i) < map (map toupper) (components ?j)"
    by (simp add: components_def identifier_simps toupper_def)
  with packet_key_order [OF k l] k l show ?thesis by blast
qed

text \<open>Two identifiers share a packet key exactly when their canonical identifiers and their
  sequence numbers agree: no two streams collide, and case or an unset location never split a
  stream in two.\<close>

lemma packet_key_injective:
  assumes "toPacketKey i s = Inr k" "toPacketKey j t = Inr l"
  shows "k = l \<longleftrightarrow> canonical i = canonical j \<and> s = t"
  using assms by (auto simp: toPacketKey_Inr_iff stream_key_eq_iff)


text \<open>A packet passes validation exactly when its identifier carries a network, a station and
  a channel and it has a start time, a sampling rate that does not compare less than or equal to
  zero (a NaN passes), a data type and a number of samples; every rejection is an error, never the
  value \<open>false\<close>.\<close>

lemma isValid_spec:
  "isValid p = Inr b \<longleftrightarrow>
     b \<and> (\<exists>i r. pk_stream_identifier p = Some i \<and> si_network i \<noteq> None \<and> si_station i \<noteq> None
          \<and> si_channel i \<noteq> None \<and> pk_start_time p \<noteq> None
          \<and> pk_sampling_rate p = Some r \<and> \<not> dbl_le_zero r
          \<and> pk_data_type p \<noteq> None \<and> pk_number_of_samples p \<noteq> None)"
  by (auto simp: isValid_def Let_def stream_identifier_def sampling_rate_def)

end
