(* ===== verification/Rocks_Api.thy ===== *)
theory Rocks_Api
  imports Keys "HOL-Library.AList"
begin

text \<open>
  The part of the RocksDB library the broker's store calls.  RocksDB is third-party code: its
  operations are a parameter (the record \<open>rocks\<close>) and what the store relies on are the laws of the
  locale \<open>rocks_api\<close>, each the documented behaviour of the call it is named after, stated over the
  contents (\<open>view\<close>) of the column families.  Write batches are values built by the store's own code,
  so their operations are a datatype here.  An in-memory reference database shows that the laws can
  hold and evaluates the concrete examples of the development.
\<close>

section \<open>Column families, write batches and their effect\<close>

datatype column_family = DefaultCF | PacketsCF | StreamsCF

datatype batch_op =
    Put column_family string string
  | Delete column_family string
  | DeleteRange column_family string string   \<comment> \<open>the keys in \<open>[begin, end)\<close>\<close>

type_synonym view = "column_family \<Rightarrow> string \<rightharpoonup> string"

fun apply_op :: "batch_op \<Rightarrow> view \<Rightarrow> view" where
  "apply_op (Put c k v) w = w(c := (w c)(k \<mapsto> v))"
| "apply_op (Delete c k) w = w(c := (w c)(k := None))"
| "apply_op (DeleteRange c b e) w = w(c := (\<lambda>k. if b \<le> k \<and> k < e then None else w c k))"

definition apply_batch :: "batch_op list \<Rightarrow> view \<Rightarrow> view" where
  "apply_batch ops = fold apply_op ops"

lemma apply_batch_simps [simp]:
  "apply_batch [] w = w"
  "apply_batch (x # xs) w = apply_batch xs (apply_op x w)"
  "apply_batch (xs @ ys) w = apply_batch ys (apply_batch xs w)"
  by (simp_all add: apply_batch_def)

section \<open>The calls\<close>

text \<open>A recursive directory walk: whether opening it set the error code, the entries (is it a
  regular file, and its size unless reading the size set the error code), and the exception the
  increment of the iterator may throw after the last of them.\<close>

record fs_walk =
  walk_error :: bool
  walk_entries :: "(bool \<times> u64 option) list"
  walk_throws :: "exn option"

record 'db rocks =
  rdb_Get :: "'db \<Rightarrow> column_family \<Rightarrow> string \<Rightarrow> string option"
  rdb_Scan :: "'db \<Rightarrow> column_family \<Rightarrow> (string \<times> string) list"
    \<comment> \<open>\<open>SeekToFirst\<close>, then \<open>Next\<close> while \<open>Valid\<close>\<close>
  rdb_Seek :: "'db \<Rightarrow> column_family \<Rightarrow> string \<Rightarrow> (string \<times> string) list"
    \<comment> \<open>\<open>Seek\<close> with \<open>prefix_same_as_start\<close>, then \<open>Next\<close> while \<open>Valid\<close>\<close>
  rdb_Write :: "'db \<Rightarrow> bool \<Rightarrow> batch_op list \<Rightarrow> bool \<times> 'db"
    \<comment> \<open>the flag is \<open>disableWAL\<close>, the result \<open>status.ok()\<close>\<close>
  rdb_CompactRange :: "'db \<Rightarrow> column_family \<Rightarrow> (string \<times> string) option \<Rightarrow> 'db"
  rdb_Flush :: "'db \<Rightarrow> column_family list \<Rightarrow> bool \<times> 'db"
  rdb_walk :: "'db \<Rightarrow> string \<Rightarrow> fs_walk"
    \<comment> \<open>\<open>std::filesystem::recursive_directory_iterator\<close> over the database directory\<close>

abbreviation key_sorted :: "(string \<times> string) list \<Rightarrow> bool" where
  "key_sorted \<equiv> sorted_wrt (\<lambda>x y. fst x < fst y)"

text \<open>The laws.  Reads see the current contents; a full scan lists a column family in ascending key
  order; a prefix seek lists the keys from the target on that share its 32-byte prefix; a batch is
  applied in order and atomically, or not at all; compaction and flushing rearrange files and leave
  the live contents alone (no compaction filter is installed).\<close>

locale rocks_api =
  fixes R :: "'db rocks" and contents :: "'db \<Rightarrow> view"
  assumes Get: "rdb_Get R d c k = contents d c k"
    and Scan_sorted: "key_sorted (rdb_Scan R d c)"
    and Scan_set: "set (rdb_Scan R d c) = {(k, v). contents d c k = Some v}"
    and Seek_sorted: "key_sorted (rdb_Seek R d PacketsCF k)"
    and Seek_set: "set (rdb_Seek R d PacketsCF k) =
      {(k', v). contents d PacketsCF k' = Some v \<and> k \<le> k' \<and>
                take streamKeyLength k' = take streamKeyLength k}"
    and Write_ok: "rdb_Write R d w b = (True, d') \<Longrightarrow> contents d' = apply_batch b (contents d)"
    and Write_failed: "rdb_Write R d w b = (False, d') \<Longrightarrow> contents d' = contents d"
    and CompactRange: "contents (rdb_CompactRange R d c r) = contents d"
    and Flush: "contents (snd (rdb_Flush R d cs)) = contents d"

section \<open>An in-memory reference database\<close>

record mem_db =
  mem_entries :: "column_family \<Rightarrow> (string \<times> string) list"
  mem_fails :: bool                         \<comment> \<open>writes report an I/O error\<close>

definition mem_contents :: "mem_db \<Rightarrow> view" where
  "mem_contents d c = map_of (mem_entries d c)"

definition mem_scan :: "mem_db \<Rightarrow> column_family \<Rightarrow> (string \<times> string) list" where
  "mem_scan d c = sort_key fst (AList.clearjunk (mem_entries d c))"

fun mem_apply :: "batch_op \<Rightarrow> mem_db \<Rightarrow> mem_db" where
  "mem_apply (Put c k v) d =
     d\<lparr>mem_entries := (mem_entries d)(c := (k, v) # mem_entries d c)\<rparr>"
| "mem_apply (Delete c k) d =
     d\<lparr>mem_entries := (mem_entries d)(c := filter (\<lambda>(k', v). k' \<noteq> k) (mem_entries d c))\<rparr>"
| "mem_apply (DeleteRange c b e) d =
     d\<lparr>mem_entries := (mem_entries d)
        (c := filter (\<lambda>(k, v). \<not> (b \<le> k \<and> k < e)) (mem_entries d c))\<rparr>"

definition mem_size :: "mem_db \<Rightarrow> nat" where
  "mem_size d = length (mem_entries d PacketsCF) + length (mem_entries d StreamsCF)"

definition mem_rocks :: "mem_db rocks" where
  "mem_rocks = \<lparr>
     rdb_Get = mem_contents,
     rdb_Scan = mem_scan,
     rdb_Seek = (\<lambda>d c k. filter (\<lambda>(k', v). k \<le> k' \<and>
        take streamKeyLength k' = take streamKeyLength k) (mem_scan d c)),
     rdb_Write = (\<lambda>d w b. if mem_fails d then (False, d) else (True, fold mem_apply b d)),
     rdb_CompactRange = (\<lambda>d c r. d),
     rdb_Flush = (\<lambda>d cs. (\<not> mem_fails d, d)),
     rdb_walk = (\<lambda>d p. \<lparr>walk_error = False, walk_entries = [(True, Some (of_nat (mem_size d)))],
                         walk_throws = None\<rparr>)\<rparr>"

definition mem_empty :: mem_db where
  "mem_empty = \<lparr>mem_entries = (\<lambda>_. []), mem_fails = False\<rparr>"

lemma map_of_filter_keys: "map_of (filter (\<lambda>(k, v). P k) xs) k = (if P k then map_of xs k else None)"
  by (induction xs) auto

lemma mem_apply_contents: "mem_contents (mem_apply x d) = apply_op x (mem_contents d)"
  by (cases x) (auto simp: mem_contents_def fun_eq_iff map_of_filter_keys)

lemma mem_fold_contents: "mem_contents (fold mem_apply b d) = apply_batch b (mem_contents d)"
  by (induction b arbitrary: d) (simp_all add: mem_apply_contents)

lemma distinct_sorted_strict:
  "sorted_wrt (\<le>) (map fst xs) \<Longrightarrow> distinct (map fst xs) \<Longrightarrow> key_sorted xs"
  by (induction xs) (auto simp: order_less_le image_iff)

lemma mem_scan_sorted: "key_sorted (mem_scan d c)"
proof (rule distinct_sorted_strict)
  show "sorted (map fst (mem_scan d c))" by (simp add: mem_scan_def)
  have "distinct (map fst (AList.clearjunk (mem_entries d c)))" by (rule distinct_clearjunk)
  then show "distinct (map fst (mem_scan d c))"
    by (simp add: mem_scan_def distinct_map)
qed

lemma mem_scan_set: "set (mem_scan d c) = {(k, v). mem_contents d c k = Some v}"
proof -
  let ?xs = "AList.clearjunk (mem_entries d c)"
  have "distinct (map fst ?xs)" by (rule distinct_clearjunk)
  then have "(k, v) \<in> set ?xs \<longleftrightarrow> map_of (mem_entries d c) k = Some v" for k v
    by (metis AList.map_of_clearjunk map_of_eq_Some_iff)
  then show ?thesis by (auto simp: mem_scan_def mem_contents_def)
qed

interpretation mem: rocks_api mem_rocks mem_contents
  by unfold_locales
    (auto simp: mem_rocks_def mem_scan_sorted mem_scan_set mem_fold_contents sorted_wrt_filter
      split: if_splits)

end
