(* ===== verification/Options.thy ===== *)
theory Options
  imports Broker_Prelude
begin

text \<open>
  The option classes: \<open>grpcServerOptions.cpp\<close>, \<open>publishServiceOptions.cpp\<close>,
  \<open>subscribeServiceOptions.cpp\<close>, \<open>rocksDatabaseOptions.cpp\<close> and \<open>brokerOptions.cpp\<close>.  Each class is
  a record of its implementation's members with their initial values; a setter returns the updated
  record or the exception it throws (and then the object is unchanged).  Durations are the \<open>int\<close>
  count of seconds of the \<open>std::chrono\<close> value, C++ \<open>int\<close> members are \<open>int\<close>s; a getter is
  the selector of its member.  The pointer to the implementation, with construction, copies, moves and
  destruction, is in \<open>Option_Handles\<close>.
\<close>

section \<open>gRPC server options\<close>

record GRPCServerOptions =
  mHost :: string
  mPort :: u16
  mAccessToken :: "string option"
  mServerCertificate :: "string option"
  mServerKey :: "string option"
  mClientCertificate :: "string option"
  mReflectionEnabled :: bool

definition GRPCServerOptions_init :: GRPCServerOptions where
  "GRPCServerOptions_init = \<lparr>mHost = ''localhost'', mPort = 50000, mAccessToken = None,
     mServerCertificate = None, mServerKey = None, mClientCertificate = None,
     mReflectionEnabled = False\<rparr>"

definition setHost :: "string \<Rightarrow> GRPCServerOptions \<Rightarrow> GRPCServerOptions result" where
  "setHost host p = (if host = [] then Inl (InvalidArgument ''Host cannot be empty.'')
                     else Inr (p\<lparr>mHost := host\<rparr>))"

definition setPort :: "u16 \<Rightarrow> GRPCServerOptions \<Rightarrow> GRPCServerOptions result" where
  "setPort port p = (if port = 0 then Inl (InvalidArgument ''Port cannot be 0.'')
                     else Inr (p\<lparr>mPort := port\<rparr>))"

definition setAccessToken :: "string \<Rightarrow> GRPCServerOptions \<Rightarrow> GRPCServerOptions result" where
  "setAccessToken accessToken p =
     (if accessToken = [] then Inl (InvalidArgument ''Access token cannot be empty.'')
      else Inr (p\<lparr>mAccessToken := Some accessToken\<rparr>))"

definition setServerCertificate :: "string \<Rightarrow> GRPCServerOptions \<Rightarrow> GRPCServerOptions result" where
  "setServerCertificate serverCertificate p =
     (if serverCertificate = [] then Inl (InvalidArgument ''Server certificate cannot be empty.'')
      else Inr (p\<lparr>mServerCertificate := Some serverCertificate\<rparr>))"

definition setServerKey :: "string \<Rightarrow> GRPCServerOptions \<Rightarrow> GRPCServerOptions result" where
  "setServerKey serverKey p =
     (if serverKey = [] then Inl (InvalidArgument ''Server key cannot be empty.'')
      else Inr (p\<lparr>mServerKey := Some serverKey\<rparr>))"

definition setClientCertificate :: "string \<Rightarrow> GRPCServerOptions \<Rightarrow> GRPCServerOptions result" where
  "setClientCertificate clientCertificate p =
     (if clientCertificate = [] then Inl (InvalidArgument ''Client certificate cannot be empty.'')
      else Inr (p\<lparr>mClientCertificate := Some clientCertificate\<rparr>))"

definition enableReflection :: "GRPCServerOptions \<Rightarrow> GRPCServerOptions" where
  "enableReflection p = p\<lparr>mReflectionEnabled := True\<rparr>"

definition disableReflection :: "GRPCServerOptions \<Rightarrow> GRPCServerOptions" where
  "disableReflection p = p\<lparr>mReflectionEnabled := False\<rparr>"

section \<open>Publish service options\<close>

record PublishServiceOptions =
  mGRPCOptions :: GRPCServerOptions
  mMaximumPublishers :: int
  mMaximumConsecutiveInvalidMessages :: u32
  mMaximumMessageSizeInBytes :: "int option"
  mHasGRPCOptions :: bool

definition PublishServiceOptions_init :: PublishServiceOptions where
  "PublishServiceOptions_init = \<lparr>mGRPCOptions = GRPCServerOptions_init, mMaximumPublishers = 64,
     mMaximumConsecutiveInvalidMessages = 16, mMaximumMessageSizeInBytes = None,
     mHasGRPCOptions = False\<rparr>"

definition setGRPCOptions ::
  "GRPCServerOptions \<Rightarrow> PublishServiceOptions \<Rightarrow> PublishServiceOptions" where
  "setGRPCOptions options p = p\<lparr>mGRPCOptions := options, mHasGRPCOptions := True\<rparr>"

definition getGRPCOptions :: "PublishServiceOptions \<Rightarrow> GRPCServerOptions result" where
  "getGRPCOptions p = (if \<not> mHasGRPCOptions p then Inl (RuntimeError ''gRPC options not set'')
                       else Inr (mGRPCOptions p))"

definition setMaximumNumberOfPublishers ::
  "int \<Rightarrow> PublishServiceOptions \<Rightarrow> PublishServiceOptions result" where
  "setMaximumNumberOfPublishers maxPublishers p =
     (if maxPublishers < 1
      then Inl (InvalidArgument ''Maximum number of publishers must be positive'')
      else Inr (p\<lparr>mMaximumPublishers := maxPublishers\<rparr>))"

definition setMaximumMessageSizeInBytes ::
  "int \<Rightarrow> PublishServiceOptions \<Rightarrow> PublishServiceOptions result" where
  "setMaximumMessageSizeInBytes maxMessageSize p =
     (if maxMessageSize < 1
      then Inl (InvalidArgument ''Maximum message size must be positive'')
      else Inr (p\<lparr>mMaximumMessageSizeInBytes := Some maxMessageSize\<rparr>))"

definition setMaximumConsecutiveInvalidMessages ::
  "u32 \<Rightarrow> PublishServiceOptions \<Rightarrow> PublishServiceOptions" where
  "setMaximumConsecutiveInvalidMessages maxInvalidMessages p =
     p\<lparr>mMaximumConsecutiveInvalidMessages := maxInvalidMessages\<rparr>"

section \<open>Subscribe service options\<close>

record SubscribeServiceOptions =
  sub_mGRPCOptions :: GRPCServerOptions
  sub_mMaximumNumberOfSubscribers :: int
  sub_mHasGRPCOptions :: bool

definition SubscribeServiceOptions_init :: SubscribeServiceOptions where
  "SubscribeServiceOptions_init = \<lparr>sub_mGRPCOptions = GRPCServerOptions_init,
     sub_mMaximumNumberOfSubscribers = 64, sub_mHasGRPCOptions = False\<rparr>"

definition sub_setGRPCOptions ::
  "GRPCServerOptions \<Rightarrow> SubscribeServiceOptions \<Rightarrow> SubscribeServiceOptions" where
  "sub_setGRPCOptions options p =
     p\<lparr>sub_mGRPCOptions := options, sub_mHasGRPCOptions := True\<rparr>"

definition sub_getGRPCOptions :: "SubscribeServiceOptions \<Rightarrow> GRPCServerOptions result" where
  "sub_getGRPCOptions p =
     (if \<not> sub_mHasGRPCOptions p then Inl (RuntimeError ''gRPC options not set'')
      else Inr (sub_mGRPCOptions p))"

definition setMaximumNumberOfSubscribers ::
  "int \<Rightarrow> SubscribeServiceOptions \<Rightarrow> SubscribeServiceOptions result" where
  "setMaximumNumberOfSubscribers maxSubscribers p =
     (if maxSubscribers < 1
      then Inl (InvalidArgument ''Maximum number of subscribers must be positive'')
      else Inr (p\<lparr>sub_mMaximumNumberOfSubscribers := maxSubscribers\<rparr>))"

section \<open>RocksDB store options\<close>

text \<open>A \<open>std::filesystem::path\<close> is its string.\<close>

record RocksDatabaseOptions =
  mDatabaseDirectory :: string
  mRetention :: int
  mWriteBufferSizeInBytes :: u64
  mMaximumNumberOfMemoryTables :: int
  mEnableWriteAheadLog :: bool
  mOverWriteIfExists :: bool

definition RocksDatabaseOptions_init :: RocksDatabaseOptions where
  "RocksDatabaseOptions_init = \<lparr>mDatabaseDirectory = [], mRetention = 3600,
     mWriteBufferSizeInBytes = push_bit 20 128, mMaximumNumberOfMemoryTables = 2,
     mEnableWriteAheadLog = False, mOverWriteIfExists = False\<rparr>"

definition setDatabaseDirectory ::
  "string \<Rightarrow> RocksDatabaseOptions \<Rightarrow> RocksDatabaseOptions result" where
  "setDatabaseDirectory databaseDirectory p =
     (if databaseDirectory = [] then Inl (InvalidArgument ''Database directory is empty'')
      else Inr (p\<lparr>mDatabaseDirectory := databaseDirectory\<rparr>))"

definition hasDatabaseDirectory :: "RocksDatabaseOptions \<Rightarrow> bool" where
  "hasDatabaseDirectory p \<longleftrightarrow> mDatabaseDirectory p \<noteq> []"

definition getDatabaseDirectory :: "RocksDatabaseOptions \<Rightarrow> string result" where
  "getDatabaseDirectory p =
     (if \<not> hasDatabaseDirectory p then Inl (RuntimeError ''Database directory not set'')
      else Inr (mDatabaseDirectory p))"

definition enableOverWriteIfExists :: "RocksDatabaseOptions \<Rightarrow> RocksDatabaseOptions" where
  "enableOverWriteIfExists p = p\<lparr>mOverWriteIfExists := True\<rparr>"

definition disableOverWriteIfExists :: "RocksDatabaseOptions \<Rightarrow> RocksDatabaseOptions" where
  "disableOverWriteIfExists p = p\<lparr>mOverWriteIfExists := False\<rparr>"

definition setRetention :: "int \<Rightarrow> RocksDatabaseOptions \<Rightarrow> RocksDatabaseOptions result" where
  "setRetention retention p =
     (if retention \<le> 0 then Inl (InvalidArgument ''Retention must be positive'')
      else Inr (p\<lparr>mRetention := retention\<rparr>))"

definition setWriteBufferSizeInBytes ::
  "u64 \<Rightarrow> RocksDatabaseOptions \<Rightarrow> RocksDatabaseOptions result" where
  "setWriteBufferSizeInBytes writeBufferSizeInBytes p =
     (if writeBufferSizeInBytes = 0
      then Inl (InvalidArgument ''Write buffer size must be positive'')
      else Inr (p\<lparr>mWriteBufferSizeInBytes := writeBufferSizeInBytes\<rparr>))"

definition setMaximumNumberOfMemoryTables ::
  "int \<Rightarrow> RocksDatabaseOptions \<Rightarrow> RocksDatabaseOptions result" where
  "setMaximumNumberOfMemoryTables maximumNumberOfMemoryTables p =
     (if maximumNumberOfMemoryTables < 1
      then Inl (InvalidArgument ''Maximum number of memory tables must be positive'')
      else Inr (p\<lparr>mMaximumNumberOfMemoryTables := maximumNumberOfMemoryTables\<rparr>))"

definition disableWriteAheadLog :: "RocksDatabaseOptions \<Rightarrow> RocksDatabaseOptions" where
  "disableWriteAheadLog p = p\<lparr>mEnableWriteAheadLog := False\<rparr>"

definition enableWriteAheadLog :: "RocksDatabaseOptions \<Rightarrow> RocksDatabaseOptions" where
  "enableWriteAheadLog p = p\<lparr>mEnableWriteAheadLog := True\<rparr>"

section \<open>Broker options\<close>

record BrokerOptions =
  mPublishServiceOptions :: PublishServiceOptions
  mRetentionDuration :: int
  mCompactionInterval :: int
  mTruncationBaseInterval :: int
  mDesiredMaximumDataStoreSizeInBytes :: "u64 option"
  mTruncationChunkSize :: int
  mQueueCapacity :: int
  mHasPublishServiceOptions :: bool
  mHasSubscribeServiceOptions :: bool

definition BrokerOptions_init :: BrokerOptions where
  "BrokerOptions_init = \<lparr>mPublishServiceOptions = PublishServiceOptions_init,
     mRetentionDuration = 30 * 60, mCompactionInterval = 30, mTruncationBaseInterval = 30,
     mDesiredMaximumDataStoreSizeInBytes = None, mTruncationChunkSize = 128,
     mQueueCapacity = 8192, mHasPublishServiceOptions = False,
     mHasSubscribeServiceOptions = False\<rparr>"

definition setPublishServiceOptions ::
  "PublishServiceOptions \<Rightarrow> BrokerOptions \<Rightarrow> BrokerOptions" where
  "setPublishServiceOptions options p =
     p\<lparr>mPublishServiceOptions := options, mHasPublishServiceOptions := True\<rparr>"

definition getPublishServiceOptions :: "BrokerOptions \<Rightarrow> PublishServiceOptions result" where
  "getPublishServiceOptions p =
     (if \<not> mHasPublishServiceOptions p then Inl (RuntimeError ''Publish service options not set'')
      else Inr (mPublishServiceOptions p))"

definition setRetentionDuration :: "int \<Rightarrow> BrokerOptions \<Rightarrow> BrokerOptions result" where
  "setRetentionDuration duration p =
     (if duration < 1 then Inl (InvalidArgument ''The retention duration must be positive'')
      else Inr (p\<lparr>mRetentionDuration := duration\<rparr>))"

definition setCompactionInterval :: "int \<Rightarrow> BrokerOptions \<Rightarrow> BrokerOptions result" where
  "setCompactionInterval interval p =
     (if interval < 0 then Inl (InvalidArgument ''Compaction interval must be non-negative'')
      else Inr (p\<lparr>mCompactionInterval := interval\<rparr>))"

end
