(* ===== verification/Rocks_Database.thy ===== *)
theory Rocks_Database
  imports Rocks_Api Options
begin

text \<open>
  \<open>src/rocksDatabase.cpp\<close>: the packet store on RocksDB.  One definition per member function of
  \<open>RocksDatabaseImpl\<close>; the RocksDB calls are the record \<open>R\<close> of theory \<open>Rocks_Api\<close>, the protobuf
  serializer is the parameter \<open>ser\<close>, and the file system and \<open>DB::Open\<close> are the record \<open>open_env\<close>.
  Logging is left out.  The proofs about these definitions are in theory \<open>Rocks_Store\<close>.
\<close>

section \<open>Value layouts\<close>

definition streamsValueLength :: nat where "streamsValueLength = 24"
definition packetsValueHeaderLength :: nat where "packetsValueHeaderLength = 9"

definition putBigEndian64 :: "string \<Rightarrow> u64 \<Rightarrow> string" where
  "putBigEndian64 out value =
     foldl (\<lambda>out shift. out @ [char_of (unat (drop_bit shift value AND 0xFF))]) out
           [56, 48, 40, 32, 24, 16, 8, 0]"

text \<open>Reads eight bytes from a pointer; every caller has checked that they are there.\<close>

definition getBigEndian64 :: "string \<Rightarrow> u64" where
  "getBigEndian64 data =
     foldl (\<lambda>value i. push_bit 8 value OR of_nat (of_char (data ! i))) 0 [0..<8]"

text \<open>\<open>IDataPacketStore::PacketVersion::One\<close> as a byte.\<close>

definition PacketVersion_One :: char where "PacketVersion_One = CHR 0x01"

section \<open>State\<close>

record 'db RocksDatabase =
  rd_mOptions :: RocksDatabaseOptions
  rd_mDatabase :: "'db option"
  rd_mDisableWriteAheadLog :: bool
  rd_mInitialized :: bool

definition RocksDatabase_init :: "RocksDatabaseOptions \<Rightarrow> 'db RocksDatabase" where
  "RocksDatabase_init options = \<lparr>rd_mOptions = options, rd_mDatabase = None,
     rd_mDisableWriteAheadLog = True, rd_mInitialized = False\<rparr>"

section \<open>Construction\<close>

text \<open>The configuration handed to RocksDB for one column family; \<open>None\<close> keeps the library default.\<close>

record ColumnFamilyOptions =
  write_buffer_size :: "u64 option"
  max_write_buffer_number :: "int option"
  ttl :: "u64 option"
  oldest_smallest_seq_first :: bool
  prefix_extractor :: "nat option"
  bloom_bits_per_key :: "nat option"
  whole_key_filtering :: bool

definition default_cf_options :: ColumnFamilyOptions where
  "default_cf_options = \<lparr>write_buffer_size = None, max_write_buffer_number = None, ttl = None,
     oldest_smallest_seq_first = False, prefix_extractor = None, bloom_bits_per_key = None,
     whole_key_filtering = True\<rparr>"

definition column_family_descriptors ::
  "RocksDatabaseOptions \<Rightarrow> (column_family \<times> ColumnFamilyOptions) list" where
  "column_family_descriptors opts =
     (let retentionSeconds = of_int (mRetention opts);
          tables = mMaximumNumberOfMemoryTables opts
      in [(DefaultCF, default_cf_options),
          (PacketsCF, default_cf_options
             \<lparr>write_buffer_size := Some (mWriteBufferSizeInBytes opts),
              max_write_buffer_number := Some tables,
              ttl := Some retentionSeconds,
              oldest_smallest_seq_first := True,
              prefix_extractor := Some streamKeyLength,
              bloom_bits_per_key := Some 10,
              whole_key_filtering := False\<rparr>),
          (StreamsCF, default_cf_options
             \<lparr>ttl := Some retentionSeconds, max_write_buffer_number := Some tables\<rparr>)])"

text \<open>The options of the database itself, of which the library's default is false, and what the code
  sets.\<close>

record DBOptions =
  create_if_missing :: bool
  create_missing_column_families :: bool
  atomic_flush :: bool

definition default_db_options :: DBOptions where
  "default_db_options = \<lparr>create_if_missing = False, create_missing_column_families = False,
     atomic_flush = False\<rparr>"

definition database_options :: DBOptions where
  "database_options = default_db_options
     \<lparr>create_if_missing := True, create_missing_column_families := True\<rparr>"

record ('disk, 'db) open_env =
  path_parent :: "string \<Rightarrow> string option"
  path_exists :: "'disk \<Rightarrow> string \<Rightarrow> bool"
  create_directories :: "'disk \<Rightarrow> string \<Rightarrow> bool result \<times> 'disk"
  rdb_DestroyDB :: "'disk \<Rightarrow> string \<Rightarrow> 'disk"
  rdb_Open :: "'disk \<Rightarrow> DBOptions \<Rightarrow> string \<Rightarrow> (column_family \<times> ColumnFamilyOptions) list
               \<Rightarrow> 'db option \<times> 'disk"

text \<open>Creating the parent directory: an exception, or the file system to go on with.\<close>

definition ensure_parent ::
  "('disk, 'db) open_env \<Rightarrow> string \<Rightarrow> 'disk \<Rightarrow> exn option \<times> 'disk" where
  "ensure_parent E databasePath disk =
     (case path_parent E databasePath of
        None \<Rightarrow> (None, disk)
      | Some parentPath \<Rightarrow>
          if path_exists E disk parentPath then (None, disk)
          else (case create_directories E disk parentPath of
                  (Inl e, disk') \<Rightarrow> (Some e, disk')
                | (Inr True, disk') \<Rightarrow> (None, disk')
                | (Inr False, disk') \<Rightarrow>
                    (Some (RuntimeError (''Failed to create parent path '' @ databasePath)), disk')))"

definition open_database ::
  "('disk, 'db) open_env \<Rightarrow> 'db RocksDatabase \<Rightarrow> 'disk \<Rightarrow> 'db RocksDatabase result \<times> 'disk" where
  "open_database E s disk =
     (case getDatabaseDirectory (rd_mOptions s) of
        Inl e \<Rightarrow> (Inl e, disk)
      | Inr databasePath \<Rightarrow>
     (case ensure_parent E databasePath disk of
        (Some e, disk) \<Rightarrow> (Inl e, disk)
      | (None, disk) \<Rightarrow>
        let disk = (if mOverWriteIfExists (rd_mOptions s) \<and> path_exists E disk databasePath
                    then rdb_DestroyDB E disk databasePath else disk)
        in (case rdb_Open E disk database_options databasePath
                   (column_family_descriptors (rd_mOptions s)) of
              (None, disk) \<Rightarrow> (Inr s, disk)
            | (Some database, disk) \<Rightarrow>
                (Inr (s\<lparr>rd_mDatabase := Some database,
                        rd_mDisableWriteAheadLog := \<not> mEnableWriteAheadLog (rd_mOptions s),
                        rd_mInitialized := True\<rparr>), disk))))"

definition RocksDatabase_construct ::
  "('disk, 'db) open_env \<Rightarrow> RocksDatabaseOptions \<Rightarrow> 'disk \<Rightarrow> 'db RocksDatabase result \<times> 'disk" where
  "RocksDatabase_construct E options disk =
     (if \<not> hasDatabaseDirectory options then (Inl (InvalidArgument ''Database not set''), disk)
      else open_database E (RocksDatabase_init options) disk)"

text \<open>Destruction: the handles that are released, in order, and the database that is closed after them.
  The three handles are set together with the pointer to the database.\<close>

definition RocksDatabase_destruct :: "'db RocksDatabase \<Rightarrow> column_family list \<times> 'db option" where
  "RocksDatabase_destruct s =
     (case rd_mDatabase s of
        None \<Rightarrow> ([], None)
      | Some database \<Rightarrow> ([DefaultCF, PacketsCF, StreamsCF], Some database))"

text \<open>The guard of the operations, and the database behind the pointer.  The pointer is null only
  when the guard throws (lemma \<open>construct_handle\<close> of theory \<open>Rocks_Store\<close>).\<close>

definition ensureInitialized :: "'db RocksDatabase \<Rightarrow> unit result" where
  "ensureInitialized s =
     (if \<not> rd_mInitialized s then Inl (RuntimeError ''RocksDatabase is not initialized'')
      else Inr ())"

definition database :: "'db RocksDatabase \<Rightarrow> 'db" where
  "database s = the (rd_mDatabase s)"

definition set_database :: "'db \<Rightarrow> 'db RocksDatabase \<Rightarrow> 'db RocksDatabase" where
  "set_database d s = s\<lparr>rd_mDatabase := Some d\<rparr>"

section \<open>The global sequence number\<close>

definition getGlobalSequenceNumber :: "'db rocks \<Rightarrow> 'db RocksDatabase \<Rightarrow> u64 result" where
  "getGlobalSequenceNumber R s =
     (case ensureInitialized s of Inl e \<Rightarrow> Inl e | Inr _ \<Rightarrow>
        Inr (foldl (\<lambda>globalSequenceNumber (key, value).
                 if streamsValueLength \<le> length value
                 then max globalSequenceNumber (getBigEndian64 (drop 8 value))
                 else globalSequenceNumber)
              0 (rdb_Scan R (database s) StreamsCF)))"

section \<open>Writing a batch of packets\<close>

record Aggregate =
  ag_minSequenceNumber :: u64
  ag_maxSequenceNumber :: u64
  ag_lastReceivedNanoSeconds :: i64

type_synonym aggregates = "(string \<times> Aggregate) list"

text \<open>\<open>try_emplace\<close> on the map of aggregates, and the merge when the stream is already there.  The
  map is an association list in order of first insertion; the iteration order of the
  \<open>std::unordered_map\<close> does not matter (theorem \<open>registry_order_irrelevant\<close>).\<close>

definition aggregate_packet :: "string \<Rightarrow> u64 \<Rightarrow> i64 \<Rightarrow> aggregates \<Rightarrow> aggregates" where
  "aggregate_packet streamKey sequenceNumber receiptNanoSeconds m =
     (case map_of m streamKey of
        None \<Rightarrow> m @ [(streamKey, \<lparr>ag_minSequenceNumber = sequenceNumber,
                                ag_maxSequenceNumber = sequenceNumber,
                                ag_lastReceivedNanoSeconds = receiptNanoSeconds\<rparr>)]
      | Some a \<Rightarrow> AList.update streamKey
          \<lparr>ag_minSequenceNumber = min (ag_minSequenceNumber a) sequenceNumber,
           ag_maxSequenceNumber = max (ag_maxSequenceNumber a) sequenceNumber,
           ag_lastReceivedNanoSeconds = smax64 (ag_lastReceivedNanoSeconds a) receiptNanoSeconds\<rparr>
          m)"

definition packet_value :: "(Packet \<Rightarrow> string) \<Rightarrow> i64 \<Rightarrow> Packet \<Rightarrow> string" where
  "packet_value ser receiptNanoSeconds packet =
     putBigEndian64 [] receiptNanoSeconds @ [PacketVersion_One] @ ser packet"

definition write_packet ::
  "(Packet \<Rightarrow> string) \<Rightarrow> Packet list \<times> batch_op list \<times> aggregates \<Rightarrow> i64 \<times> Packet
   \<Rightarrow> Packet list \<times> batch_op list \<times> aggregates" where
  "write_packet ser = (\<lambda>(notWritten, batch, streamAggregate) (receiptTime, packet).
     let identifier = stream_identifier packet;
         sequenceNumber = sequence_number packet
     in (case toPacketKey identifier sequenceNumber of
           Inl _ \<Rightarrow> (notWritten @ [packet], batch, streamAggregate)
         | Inr packetKey \<Rightarrow>
             let streamKey = projr (toStreamKey identifier)
             in (notWritten,
                 batch @ [Put PacketsCF packetKey (packet_value ser receiptTime packet)],
                 aggregate_packet streamKey sequenceNumber receiptTime streamAggregate)))"

definition registry_value :: "u64 \<Rightarrow> u64 \<Rightarrow> i64 \<Rightarrow> string" where
  "registry_value minSequenceNumber maxSequenceNumber lastReceivedNanoSeconds =
     putBigEndian64 (putBigEndian64 (putBigEndian64 [] minSequenceNumber) maxSequenceNumber)
       lastReceivedNanoSeconds"

definition merge_registry :: "'db rocks \<Rightarrow> 'db \<Rightarrow> string \<times> Aggregate \<Rightarrow> batch_op" where
  "merge_registry R d = (\<lambda>(streamKey, a).
     case rdb_Get R d StreamsCF streamKey of
       Some existing \<Rightarrow>
         if streamsValueLength \<le> length existing
         then Put StreamsCF streamKey (registry_value
                (min (ag_minSequenceNumber a) (getBigEndian64 existing))
                (max (ag_maxSequenceNumber a) (getBigEndian64 (drop 8 existing)))
                (smax64 (ag_lastReceivedNanoSeconds a) (getBigEndian64 (drop 16 existing))))
         else Put StreamsCF streamKey (registry_value (ag_minSequenceNumber a)
                (ag_maxSequenceNumber a) (ag_lastReceivedNanoSeconds a))
     | None \<Rightarrow> Put StreamsCF streamKey (registry_value (ag_minSequenceNumber a)
                (ag_maxSequenceNumber a) (ag_lastReceivedNanoSeconds a)))"

definition write_batch ::
  "'db rocks \<Rightarrow> (Packet \<Rightarrow> string) \<Rightarrow> 'db \<Rightarrow> (i64 \<times> Packet) list \<Rightarrow> Packet list \<times> batch_op list" where
  "write_batch R ser d receiptTimeAndData =
     (case foldl (write_packet ser) ([], [], []) receiptTimeAndData of
        (notWritten, batch, streamAggregate) \<Rightarrow>
          (notWritten, batch @ map (merge_registry R d) streamAggregate))"

definition write_packets ::
  "'db rocks \<Rightarrow> (Packet \<Rightarrow> string) \<Rightarrow> (i64 \<times> Packet) list \<Rightarrow> 'db RocksDatabase
   \<Rightarrow> Packet list result \<times> 'db RocksDatabase" where
  "write_packets R ser receiptTimeAndData s =
     (case ensureInitialized s of Inl e \<Rightarrow> (Inl e, s) | Inr _ \<Rightarrow>
        if receiptTimeAndData = [] then (Inr [], s)
        else
          let (notWritten, batch) = write_batch R ser (database s) receiptTimeAndData;
              (ok, d) = rdb_Write R (database s) (rd_mDisableWriteAheadLog s) batch;
              s = set_database d s
          in if ok then (Inr notWritten, s)
             else (Inr (map snd receiptTimeAndData), s))"

section \<open>Compaction, flushing and the size on disk\<close>

definition compact :: "'db rocks \<Rightarrow> i64 \<Rightarrow> 'db RocksDatabase \<Rightarrow> unit result \<times> 'db RocksDatabase" where
  "compact R dropBefore s =
     (case ensureInitialized s of Inl e \<Rightarrow> (Inl e, s) | Inr _ \<Rightarrow>
        let d = rdb_CompactRange R (database s) PacketsCF None;
            d = rdb_CompactRange R d StreamsCF None
        in (Inr (), set_database d s))"

definition flush :: "'db rocks \<Rightarrow> 'db RocksDatabase \<Rightarrow> 'db RocksDatabase" where
  "flush R s =
     (if \<not> rd_mInitialized s then s
      else set_database (snd (rdb_Flush R (database s) [PacketsCF, StreamsCF])) s)"

fun size_loop :: "bool \<Rightarrow> (bool \<times> u64 option) list \<Rightarrow> u64 \<Rightarrow> u64" where
  "size_loop errorCode [] totalBytes = totalBytes"
| "size_loop errorCode ((is_regular, file_size) # entries) totalBytes =
     (if errorCode then totalBytes
      else size_loop errorCode entries
        (if is_regular then (case file_size of None \<Rightarrow> totalBytes | Some n \<Rightarrow> totalBytes + n) else totalBytes))"

definition getSizeInBytes :: "'db rocks \<Rightarrow> 'db RocksDatabase \<Rightarrow> u64 result" where
  "getSizeInBytes R s =
     (if \<not> rd_mInitialized s then Inr 0
      else (case getDatabaseDirectory (rd_mOptions s) of
              Inl e \<Rightarrow> Inl e
            | Inr directory \<Rightarrow>
                let w = rdb_walk R (database s) directory
                in (case walk_throws w of
                      Some e \<Rightarrow> Inl e
                    | None \<Rightarrow> Inr (size_loop (walk_error w) (walk_entries w) 0))))"

section \<open>Truncation\<close>

record Entry =
  en_streamKey :: string
  en_minSequenceNumber :: u64
  en_maxSequenceNumber :: u64
  en_lastReceivedNanoSeconds :: i64

text \<open>The snapshot of the registry with the running global minimum and maximum.\<close>

definition snapshot_entry ::
  "Entry list \<times> u64 \<times> u64 \<Rightarrow> string \<times> string \<Rightarrow> Entry list \<times> u64 \<times> u64" where
  "snapshot_entry = (\<lambda>(entries, globalMin, globalMax) (key, value).
     if length value < streamsValueLength then (entries, globalMin, globalMax)
     else
       let entry = \<lparr>en_streamKey = key,
                    en_minSequenceNumber = getBigEndian64 value,
                    en_maxSequenceNumber = getBigEndian64 (drop 8 value),
                    en_lastReceivedNanoSeconds = getBigEndian64 (drop 16 value)\<rparr>
       in (entries @ [entry], min globalMin (en_minSequenceNumber entry),
           max globalMax (en_maxSequenceNumber entry)))"

definition snapshot :: "'db rocks \<Rightarrow> 'db \<Rightarrow> Entry list \<times> u64 \<times> u64" where
  "snapshot R d = foldl snapshot_entry ([], - 1, 0) (rdb_Scan R d StreamsCF)"

text \<open>The first sequence number to keep, in 64-bit arithmetic.\<close>

definition truncation_cutoff :: "u64 \<Rightarrow> u64 \<Rightarrow> u64 \<Rightarrow> u64" where
  "truncation_cutoff globalMin globalMax nPackets =
     (let cutoff = globalMin + nPackets
      in if cutoff > globalMax + 1 then globalMax + 1 else cutoff)"

definition truncate_entry ::
  "u64 \<Rightarrow> batch_op list \<times> (string \<times> string) list \<Rightarrow> Entry \<Rightarrow> batch_op list \<times> (string \<times> string) list" where
  "truncate_entry cutoff = (\<lambda>(batch, compactRanges) entry.
     if en_minSequenceNumber entry \<ge> cutoff then (batch, compactRanges)
     else
       let rangeBegin = putBigEndian64 (en_streamKey entry) 0;
           rangeEnd = putBigEndian64 (en_streamKey entry) cutoff;
           batch = batch @ [DeleteRange PacketsCF rangeBegin rangeEnd];
           batch =
             (if en_maxSequenceNumber entry < cutoff
              then batch @ [Delete StreamsCF (en_streamKey entry)]
              else batch @ [Put StreamsCF (en_streamKey entry)
                     (registry_value cutoff (en_maxSequenceNumber entry)
                       (en_lastReceivedNanoSeconds entry))])
       in (batch, compactRanges @ [(rangeBegin, rangeEnd)]))"

definition truncateOldest ::
  "'db rocks \<Rightarrow> u64 \<Rightarrow> 'db RocksDatabase \<Rightarrow> u64 result \<times> 'db RocksDatabase" where
  "truncateOldest R nPackets s =
     (case ensureInitialized s of Inl e \<Rightarrow> (Inl e, s) | Inr _ \<Rightarrow>
        if nPackets = 0 then (Inr 0, s)
        else
          let (entries, globalMin, globalMax) = snapshot R (database s)
          in if entries = [] \<or> globalMin > globalMax then (Inr 0, s)
          else
            let cutoff = truncation_cutoff globalMin globalMax nPackets;
                purged = cutoff - globalMin
            in if purged = 0 then (Inr 0, s)
            else
              let (batch, compactRanges) = foldl (truncate_entry cutoff) ([], []) entries;
                  (ok, d) = rdb_Write R (database s) (rd_mDisableWriteAheadLog s) batch
              in if \<not> ok then (Inr 0, set_database d s)
              else
                let d = foldl (\<lambda>d r. rdb_CompactRange R d PacketsCF (Some r)) d compactRanges;
                    d = rdb_CompactRange R d StreamsCF None
                in (Inr purged, set_database d s))"

section \<open>Queries\<close>

record QueryResponse =
  qr_packet :: string
  qr_receivedAt :: i64
  qr_sequenceNumber :: u64

definition starts_with :: "string \<Rightarrow> string \<Rightarrow> bool" where
  "starts_with s p \<longleftrightarrow> take (length p) s = p"

fun query_loop :: "string \<Rightarrow> (string \<times> string) list \<Rightarrow> QueryResponse list \<Rightarrow> QueryResponse list" where
  "query_loop prefix [] responses = responses"
| "query_loop prefix ((key, value) # rest) responses =
     (if \<not> starts_with key prefix then responses
      else if length value < packetsValueHeaderLength then query_loop prefix rest responses
      else query_loop prefix rest (responses @
        [\<lparr>qr_packet = drop packetsValueHeaderLength value,
          qr_receivedAt = getBigEndian64 value,
          qr_sequenceNumber = getBigEndian64 (drop streamKeyLength key)\<rparr>]))"

definition query_stream ::
  "'db rocks \<Rightarrow> 'db \<Rightarrow> QueryResponse list \<Rightarrow> StreamIdentifier \<times> u64 \<Rightarrow> QueryResponse list" where
  "query_stream R d responses = (\<lambda>(identifier, startSequenceNumber).
     case (toStreamKey identifier, toPacketKey identifier startSequenceNumber) of
       (Inr prefix, Inr seekKey) \<Rightarrow>
         query_loop prefix (rdb_Seek R d PacketsCF seekKey) responses
     | _ \<Rightarrow> responses)"

definition query ::
  "'db rocks \<Rightarrow> (StreamIdentifier \<times> u64) list \<Rightarrow> 'db RocksDatabase \<Rightarrow> QueryResponse list result" where
  "query R identifiersAndSequenceNumbers s =
     (case ensureInitialized s of Inl e \<Rightarrow> Inl e | Inr _ \<Rightarrow>
        Inr (foldl (query_stream R (database s)) [] identifiersAndSequenceNumbers))"

definition queryAvailableStreams ::
  "'db rocks \<Rightarrow> 'db RocksDatabase \<Rightarrow> (i64 \<times> StreamIdentifier) list result" where
  "queryAvailableStreams R s =
     (case ensureInitialized s of Inl e \<Rightarrow> Inl e | Inr _ \<Rightarrow>
        Inr (foldl (\<lambda>result (key, value).
               case fromStreamKey key empty_identifier of
                 Inl _ \<Rightarrow> result
               | Inr identifier \<Rightarrow> result @
                   [(if streamsValueLength \<le> length value
                     then getBigEndian64 (drop 16 value) else 0, identifier)])
             [] (rdb_Scan R (database s) StreamsCF)))"

end
