(* ===== verification/Rocks_Store.thy ===== *)
theory Rocks_Store
  imports Rocks_Database
begin

text \<open>
  Correctness of the RocksDB packet store: the value codecs, the store invariant that ties the
  registry of streams to the packets, and what construction, writing, querying and listing do to
  the contents of the database.  The lemmas about an arbitrary database that satisfies the laws are
  proved in the context of the locale \<open>rocks_api\<close>.  Truncation is in theory \<open>Rocks_Truncate\<close>.
\<close>

section \<open>Value codecs\<close>

lemma putBigEndian64_be64 [be_simps]: "putBigEndian64 out v = out @ be64 v"
  using appendBigEndian64_be64 [of out v]
  by (simp add: putBigEndian64_def appendBigEndian64_def appendBigEndian64_loop.simps)

lemma getBigEndian64_un_be64 [be_simps]:
  "8 \<le> length data \<Longrightarrow> getBigEndian64 data = un_be64 (take 8 data)"
  using take_8_nth [of 0 data] by (simp add: getBigEndian64_def un_be64_foldl foldl_map)

abbreviation (input) reg_min :: "string \<Rightarrow> u64" where "reg_min v \<equiv> getBigEndian64 v"
abbreviation (input) reg_max :: "string \<Rightarrow> u64" where "reg_max v \<equiv> getBigEndian64 (drop 8 v)"
abbreviation (input) reg_last :: "string \<Rightarrow> i64" where "reg_last v \<equiv> getBigEndian64 (drop 16 v)"

lemma registry_value_simps [simp]:
  "length (registry_value a b c) = 24"
  "reg_min (registry_value a b c) = a"
  "reg_max (registry_value a b c) = b"
  "reg_last (registry_value a b c) = c"
  by (simp_all add: registry_value_def be_simps)

lemma packet_value_simps [simp]:
  "length (packet_value ser t p) = 9 + length (ser p)"
  "getBigEndian64 (packet_value ser t p) = t"
  "drop 9 (packet_value ser t p) = ser p"
  by (simp_all add: packet_value_def be_simps)

lemma value_lengths [simp]: "streamsValueLength = 24" "packetsValueHeaderLength = 9"
  by (simp_all add: streamsValueLength_def packetsValueHeaderLength_def)

section \<open>The store invariant\<close>

definition seq_of :: "string \<Rightarrow> u64" where
  "seq_of k = un_be64 (drop 32 k)"

lemma seq_of_key [simp]: "length sk = 32 \<Longrightarrow> seq_of (sk @ be64 q) = q"
  by (simp add: seq_of_def)

lemma packet_key_split: "length k = 40 \<Longrightarrow> k = take 32 k @ be64 (seq_of k)"
  by (simp add: seq_of_def be64_un_be64)

text \<open>Every registry entry is keyed by a stream key and holds a non-empty interval; every packet is
  keyed by a stream key and a number inside the interval of its stream's registry entry.\<close>

definition registry_wf :: "view \<Rightarrow> bool" where
  "registry_wf w \<longleftrightarrow> (\<forall>k v. w StreamsCF k = Some v \<longrightarrow>
     (\<exists>i. keyable i \<and> k = stream_key i) \<and> length v = 24 \<and> reg_min v \<le> reg_max v)"

definition packets_wf :: "view \<Rightarrow> bool" where
  "packets_wf w \<longleftrightarrow> (\<forall>k v. w PacketsCF k = Some v \<longrightarrow>
     length k = 40 \<and> 9 \<le> length v \<and>
     (\<exists>r. w StreamsCF (take 32 k) = Some r \<and> reg_min r \<le> seq_of k \<and> seq_of k \<le> reg_max r))"

definition store_wf :: "view \<Rightarrow> bool" where
  "store_wf w \<longleftrightarrow> registry_wf w \<and> packets_wf w"

lemma store_wfI [inv_intros]: "registry_wf w \<Longrightarrow> packets_wf w \<Longrightarrow> store_wf w"
  by (simp add: store_wf_def)

lemma registry_wfD:
  assumes "store_wf w" "w StreamsCF k = Some v"
  shows "\<exists>i. keyable i \<and> k = stream_key i" "length k = 32" "length v = 24" "reg_min v \<le> reg_max v"
  using assms by (fastforce simp: store_wf_def registry_wf_def)+

lemma packets_wfD:
  assumes "store_wf w" "w PacketsCF k = Some v"
  shows "length k = 40" "9 \<le> length v"
    "\<exists>r. w StreamsCF (take 32 k) = Some r \<and> reg_min r \<le> seq_of k \<and> seq_of k \<le> reg_max r"
  using assms by (auto simp: store_wf_def packets_wf_def)

lemma store_wf_empty: "store_wf (\<lambda>c k. None)"
  by (simp add: store_wf_def registry_wf_def packets_wf_def)

section \<open>Construction and the initialization guard\<close>

definition handle_ok :: "'db RocksDatabase \<Rightarrow> bool" where
  "handle_ok s \<longleftrightarrow> (rd_mInitialized s \<longleftrightarrow> rd_mDatabase s \<noteq> None)"

lemma construct_handle:
  "RocksDatabase_construct E opts disk = (Inr s, disk') \<Longrightarrow> handle_ok s"
  by (auto simp: RocksDatabase_construct_def open_database_def RocksDatabase_init_def handle_ok_def
      Let_def split: if_splits sum.splits option.splits prod.splits)

text \<open>Destruction releases exactly the handles that the construction opened, each once.\<close>

lemma destruct_releases:
  "handle_ok s \<Longrightarrow> fst (RocksDatabase_destruct s) =
     (if rd_mInitialized s then map fst (column_family_descriptors opts) else [])"
  by (auto simp: handle_ok_def RocksDatabase_destruct_def column_family_descriptors_def Let_def)

lemma ensureInitialized_simps [simp]:
  "rd_mInitialized s \<Longrightarrow> ensureInitialized s = Inr ()"
  "\<not> rd_mInitialized s \<Longrightarrow>
     ensureInitialized s = Inl (RuntimeError ''RocksDatabase is not initialized'')"
  by (simp_all add: ensureInitialized_def)

lemma set_database_simps [simp]:
  "rd_mInitialized (set_database d s) = rd_mInitialized s"
  "database (set_database d s) = d"
  "rd_mDisableWriteAheadLog (set_database d s) = rd_mDisableWriteAheadLog s"
  "rd_mOptions (set_database d s) = rd_mOptions s"
  by (simp_all add: set_database_def database_def)

section \<open>The write loop\<close>

definition data_keyable :: "i64 \<times> Packet \<Rightarrow> bool" where
  "data_keyable x \<longleftrightarrow> keyable (stream_identifier (snd x))"

definition data_stream :: "i64 \<times> Packet \<Rightarrow> string" where
  "data_stream x = stream_key (stream_identifier (snd x))"

definition data_seq :: "i64 \<times> Packet \<Rightarrow> u64" where
  "data_seq x = sequence_number (snd x)"

definition data_key :: "i64 \<times> Packet \<Rightarrow> string" where
  "data_key x = data_stream x @ be64 (data_seq x)"

lemma length_data_stream [simp]: "data_keyable x \<Longrightarrow> length (data_stream x) = 32"
  by (simp add: data_keyable_def data_stream_def)

lemma data_key_simps [simp]:
  "data_keyable x \<Longrightarrow> length (data_key x) = 40"
  "data_keyable x \<Longrightarrow> take 32 (data_key x) = data_stream x"
  "data_keyable x \<Longrightarrow> seq_of (data_key x) = data_seq x"
  by (simp_all add: data_key_def)

definition put_packet :: "(Packet \<Rightarrow> string) \<Rightarrow> i64 \<times> Packet \<Rightarrow> batch_op" where
  "put_packet ser x = Put PacketsCF (data_key x) (packet_value ser (fst x) (snd x))"

definition aggregate_data :: "aggregates \<Rightarrow> i64 \<times> Packet \<Rightarrow> aggregates" where
  "aggregate_data m x = aggregate_packet (data_stream x) (data_seq x) (fst x) m"

lemma write_packet_keyable:
  "data_keyable x \<Longrightarrow>
   write_packet ser (n, b, m) x = (n, b @ [put_packet ser x], aggregate_data m x)"
  by (cases x) (simp add: write_packet_def put_packet_def data_key_def aggregate_data_def
      data_keyable_def data_stream_def data_seq_def Let_def)

lemma write_packet_unkeyable:
  "\<not> data_keyable x \<Longrightarrow> write_packet ser (n, b, m) x = (n @ [snd x], b, m)"
  using toPacketKey_Inl_iff [of "stream_identifier (snd x)" "sequence_number (snd x)"]
  by (cases x) (auto simp: write_packet_def data_keyable_def Let_def)

lemma write_loop:
  "foldl (write_packet ser) (n, b, m) xs =
     (n @ map snd (filter (\<lambda>x. \<not> data_keyable x) xs),
      b @ map (put_packet ser) (filter data_keyable xs),
      foldl aggregate_data m (filter data_keyable xs))"
proof (induction xs arbitrary: n b m)
  case (Cons x xs)
  then show ?case
    by (cases "data_keyable x") (simp_all add: write_packet_keyable write_packet_unkeyable)
qed simp

section \<open>The aggregate of a stream is the range of its packets\<close>

definition merge_data :: "Aggregate option \<Rightarrow> i64 \<times> Packet \<Rightarrow> Aggregate option" where
  "merge_data old x = Some (case old of
     None \<Rightarrow> \<lparr>ag_minSequenceNumber = data_seq x, ag_maxSequenceNumber = data_seq x,
              ag_lastReceivedNanoSeconds = fst x\<rparr>
   | Some a \<Rightarrow> \<lparr>ag_minSequenceNumber = min (ag_minSequenceNumber a) (data_seq x),
        ag_maxSequenceNumber = max (ag_maxSequenceNumber a) (data_seq x),
        ag_lastReceivedNanoSeconds = smax64 (ag_lastReceivedNanoSeconds a) (fst x)\<rparr>)"

definition aggregate_of :: "(i64 \<times> Packet) list \<Rightarrow> Aggregate option" where
  "aggregate_of ys =
     (if ys = [] then None
      else Some \<lparr>ag_minSequenceNumber = Min (data_seq ` set ys),
                 ag_maxSequenceNumber = Max (data_seq ` set ys),
                 ag_lastReceivedNanoSeconds = foldl smax64 (fst (hd ys)) (map fst (tl ys))\<rparr>)"

lemma map_of_aggregate_data:
  "map_of (aggregate_data m x) k =
     (if k = data_stream x then merge_data (map_of m k) x else map_of m k)"
  by (auto simp: aggregate_data_def merge_data_def aggregate_packet_def AList.update_conv'
      map_add_def split: option.splits)

lemma distinct_aggregate_data:
  "distinct (map fst m) \<Longrightarrow> distinct (map fst (aggregate_data m x))"
  by (auto simp: aggregate_data_def aggregate_packet_def AList.distinct_update map_of_eq_None_iff
      split: option.splits)

lemma distinct_aggregates:
  "distinct (map fst m) \<Longrightarrow> distinct (map fst (foldl aggregate_data m xs))"
  by (induction xs arbitrary: m) (simp_all add: distinct_aggregate_data)

lemma map_of_aggregates:
  "map_of (foldl aggregate_data m xs) k =
     foldl merge_data (map_of m k) (filter (\<lambda>x. data_stream x = k) xs)"
  by (induction xs arbitrary: m) (auto simp: map_of_aggregate_data)

lemma merge_data_Some:
  "foldl merge_data (Some a) ys = Some
     \<lparr>ag_minSequenceNumber = Min (insert (ag_minSequenceNumber a) (data_seq ` set ys)),
      ag_maxSequenceNumber = Max (insert (ag_maxSequenceNumber a) (data_seq ` set ys)),
      ag_lastReceivedNanoSeconds = foldl smax64 (ag_lastReceivedNanoSeconds a) (map fst ys)\<rparr>"
proof (induction ys arbitrary: a)
  case (Cons y ys)
  have step: "merge_data (Some a) y = Some
      \<lparr>ag_minSequenceNumber = min (ag_minSequenceNumber a) (data_seq y),
       ag_maxSequenceNumber = max (ag_maxSequenceNumber a) (data_seq y),
       ag_lastReceivedNanoSeconds = smax64 (ag_lastReceivedNanoSeconds a) (fst y)\<rparr>"
    by (simp add: merge_data_def)
  show ?case
    by (cases "ys = []") (simp_all add: step Cons.IH min.assoc max.assoc)
qed simp

lemma foldl_merge_data: "foldl merge_data None ys = aggregate_of ys"
  by (cases ys) (simp_all add: aggregate_of_def merge_data_def merge_data_Some)

lemma aggregates_eq:
  "map_of (foldl aggregate_data [] xs) k = aggregate_of (filter (\<lambda>x. data_stream x = k) xs)"
  by (simp add: map_of_aggregates foldl_merge_data)

section \<open>The contents after a batch of puts\<close>

lemma apply_puts:
  "apply_batch (map (\<lambda>x. Put c (f x) (g x)) xs) w =
     w(c := w c ++ map_of (rev (map (\<lambda>x. (f x, g x)) xs)))"
  by (induction xs arbitrary: w) (auto simp: fun_eq_iff map_add_def split: option.splits)

definition merged_value :: "string option \<Rightarrow> Aggregate \<Rightarrow> string" where
  "merged_value old a =
     (case old of
        Some existing \<Rightarrow>
          if 24 \<le> length existing
          then registry_value (min (ag_minSequenceNumber a) (reg_min existing))
                 (max (ag_maxSequenceNumber a) (reg_max existing))
                 (smax64 (ag_lastReceivedNanoSeconds a) (reg_last existing))
          else registry_value (ag_minSequenceNumber a) (ag_maxSequenceNumber a)
                 (ag_lastReceivedNanoSeconds a)
      | None \<Rightarrow> registry_value (ag_minSequenceNumber a) (ag_maxSequenceNumber a)
                 (ag_lastReceivedNanoSeconds a))"

lemma length_merged_value [simp]: "length (merged_value old a) = 24"
  by (simp add: merged_value_def split: option.split)

lemma map_of_rev_distinct: "distinct (map fst xs) \<Longrightarrow> map_of (rev xs) = map_of xs"
  by (simp add: map_of_inject_set distinct_map rev_map)

context rocks_api
begin

lemma merge_registry_eq:
  "merge_registry R d = (\<lambda>x. Put StreamsCF (fst x)
     (merged_value (contents d StreamsCF (fst x)) (snd x)))"
  by (auto simp: merge_registry_def merged_value_def Get fun_eq_iff split: option.split)

text \<open>What a successful write leaves in the two column families of a database with contents \<open>w\<close>,
  when its batch was built from the registry of \<open>d\<close>.\<close>

lemma write_contents_on:
  assumes "write_batch R ser d xs = (n, b)"
  shows "apply_batch b w PacketsCF = w PacketsCF ++
           map_of (rev (map (\<lambda>x. (data_key x, packet_value ser (fst x) (snd x)))
             (filter data_keyable xs)))"
    and "apply_batch b w StreamsCF k =
           (case aggregate_of (filter (\<lambda>x. data_keyable x \<and> data_stream x = k) xs) of
              None \<Rightarrow> w StreamsCF k
            | Some a \<Rightarrow> Some (merged_value (contents d StreamsCF k) a))"
    and "apply_batch b w DefaultCF = w DefaultCF"
proof -
  let ?ks = "filter data_keyable xs" and ?g = "foldl aggregate_data [] (filter data_keyable xs)"
  from assms have b: "b = map (put_packet ser) ?ks @ map (merge_registry R d) ?g"
    by (auto simp: write_batch_def write_loop)
  have all: "apply_batch b w =
      w(PacketsCF := w PacketsCF ++
         map_of (rev (map (\<lambda>x. (data_key x, packet_value ser (fst x) (snd x))) ?ks)),
       StreamsCF := w StreamsCF ++ map_of (rev (map (\<lambda>x. (fst x,
         merged_value (contents d StreamsCF (fst x)) (snd x))) ?g)))"
    by (simp add: b apply_puts put_packet_def [abs_def] merge_registry_eq)
  show "apply_batch b w PacketsCF = w PacketsCF ++
     map_of (rev (map (\<lambda>x. (data_key x, packet_value ser (fst x) (snd x))) ?ks))"
    "apply_batch b w DefaultCF = w DefaultCF"
    by (simp_all add: all)
  have dist: "distinct (map fst ?g)" by (simp add: distinct_aggregates)
  have mv: "map_of (map (\<lambda>x. (fst x, f (fst x) (snd x))) g) k = map_option (f k) (map_of g k)"
    for f g and k :: string by (induction g) auto
  have "map_of (rev (map (\<lambda>x. (fst x, merged_value (contents d StreamsCF (fst x)) (snd x))) ?g)) k
      = map_option (merged_value (contents d StreamsCF k)) (map_of ?g k)"
    using dist by (subst map_of_rev_distinct)
      (simp_all add: comp_def mv [of "\<lambda>k. merged_value (contents d StreamsCF k)"])
  then show "apply_batch b w StreamsCF k =
           (case aggregate_of (filter (\<lambda>x. data_keyable x \<and> data_stream x = k) xs) of
              None \<Rightarrow> w StreamsCF k
            | Some a \<Rightarrow> Some (merged_value (contents d StreamsCF k) a))"
    by (simp add: all map_add_def aggregates_eq conj_commute split: option.split)
qed

lemma write_contents:
  assumes "write_batch R ser d xs = (n, b)"
  shows "n = map snd (filter (\<lambda>x. \<not> data_keyable x) xs)"
    and "apply_batch b (contents d) PacketsCF = contents d PacketsCF ++
           map_of (rev (map (\<lambda>x. (data_key x, packet_value ser (fst x) (snd x)))
             (filter data_keyable xs)))"
    and "apply_batch b (contents d) StreamsCF k =
           (case aggregate_of (filter (\<lambda>x. data_keyable x \<and> data_stream x = k) xs) of
              None \<Rightarrow> contents d StreamsCF k
            | Some a \<Rightarrow> Some (merged_value (contents d StreamsCF k) a))"
    and "apply_batch b (contents d) DefaultCF = contents d DefaultCF"
  using assms write_contents_on [OF assms, of "contents d"]
  by (auto simp: write_batch_def write_loop)

end

section \<open>Bounds of aggregates and merged registry entries\<close>

lemma aggregate_of_None_iff [simp]: "aggregate_of ys = None \<longleftrightarrow> ys = []"
  by (simp add: aggregate_of_def)

lemma aggregate_of_mem: "x \<in> set ys \<Longrightarrow> \<exists>a. aggregate_of ys = Some a"
  by (cases ys) (auto simp: aggregate_of_def)

lemma aggregate_of_SomeD:
  assumes "aggregate_of ys = Some a"
  shows "ys \<noteq> []" "ag_minSequenceNumber a \<le> ag_maxSequenceNumber a"
    "ag_maxSequenceNumber a \<in> data_seq ` set ys" "ag_minSequenceNumber a \<in> data_seq ` set ys"
    "x \<in> set ys \<Longrightarrow> ag_minSequenceNumber a \<le> data_seq x \<and> data_seq x \<le> ag_maxSequenceNumber a"
proof -
  from assms have ne: "ys \<noteq> []" and
    a: "ag_minSequenceNumber a = Min (data_seq ` set ys)"
       "ag_maxSequenceNumber a = Max (data_seq ` set ys)"
    by (auto simp: aggregate_of_def split: if_splits)
  then show "ys \<noteq> []" "ag_maxSequenceNumber a \<in> data_seq ` set ys"
    "ag_minSequenceNumber a \<in> data_seq ` set ys" by simp_all
  show le: "ag_minSequenceNumber a \<le> data_seq x \<and> data_seq x \<le> ag_maxSequenceNumber a"
    if "x \<in> set ys" for x using that by (simp add: a)
  from ne obtain x where "x \<in> set ys" by (cases ys) auto
  with le show "ag_minSequenceNumber a \<le> ag_maxSequenceNumber a" by (meson order_trans)
qed

lemma merged_value_bounds:
  "reg_min (merged_value old a) \<le> ag_minSequenceNumber a"
  "ag_maxSequenceNumber a \<le> reg_max (merged_value old a)"
  "old = Some v \<Longrightarrow> length v = 24 \<Longrightarrow>
     reg_min (merged_value old a) \<le> reg_min v \<and> reg_max v \<le> reg_max (merged_value old a)"
  "reg_max (merged_value old a) = ag_maxSequenceNumber a \<or>
     (\<exists>v. old = Some v \<and> 24 \<le> length v \<and> reg_max (merged_value old a) = reg_max v)"
  by (auto simp: merged_value_def max_def split: option.split)

context rocks_api
begin

lemma write_batch_keeps_entry:
  assumes wf: "store_wf (contents d)" and b: "write_batch R ser d xs = (n, b)"
    and r: "contents d StreamsCF k = Some r"
  shows "\<exists>r'. apply_batch b (contents d) StreamsCF k = Some r' \<and> length r' = 24 \<and>
              reg_min r' \<le> reg_min r \<and> reg_max r \<le> reg_max r'"
  using r registry_wfD(3) [OF wf r] merged_value_bounds(3)
  by (auto simp: write_contents(3) [OF b] split: option.split)

lemma write_batch_covers:
  assumes b: "write_batch R ser d xs = (n, b)" and x: "x \<in> set xs" "data_keyable x"
  shows "\<exists>r. apply_batch b (contents d) StreamsCF (data_stream x) = Some r \<and> length r = 24 \<and>
             reg_min r \<le> data_seq x \<and> data_seq x \<le> reg_max r"
proof -
  let ?ys = "filter (\<lambda>y. data_keyable y \<and> data_stream y = data_stream x) xs"
  have x': "x \<in> set ?ys" using x by simp
  then obtain a where a: "aggregate_of ?ys = Some a" using aggregate_of_mem by blast
  then have "apply_batch b (contents d) StreamsCF (data_stream x) =
      Some (merged_value (contents d StreamsCF (data_stream x)) a)"
    by (simp add: write_contents(3) [OF b])
  with aggregate_of_SomeD(5) [OF a x'] show ?thesis
    using merged_value_bounds(1,2) [where old = "contents d StreamsCF (data_stream x)" and a = a]
    by (auto intro: order_trans)
qed

lemma registry_wf_write_batch:
  assumes wf: "store_wf (contents d)" and b: "write_batch R ser d xs = (n, b)"
  shows "registry_wf (apply_batch b (contents d))"
  unfolding registry_wf_def
proof (intro allI impI)
  fix k v assume v: "apply_batch b (contents d) StreamsCF k = Some v"
  let ?ys = "filter (\<lambda>x. data_keyable x \<and> data_stream x = k) xs"
  show "(\<exists>i. keyable i \<and> k = stream_key i) \<and> length v = 24 \<and> reg_min v \<le> reg_max v"
  proof (cases "aggregate_of ?ys")
    case None
    with v registry_wfD [OF wf] show ?thesis by (simp add: write_contents(3) [OF b])
  next
    case (Some a)
    note a = aggregate_of_SomeD [OF Some]
    from a(1) obtain x where "x \<in> set ?ys" by (cases ?ys) auto
    then have key: "\<exists>i. keyable i \<and> k = stream_key i"
      by (auto simp: data_keyable_def data_stream_def)
    have v': "v = merged_value (contents d StreamsCF k) a"
      using v Some by (simp add: write_contents(3) [OF b])
    have "reg_min v \<le> reg_max v"
      using merged_value_bounds(1,2) [where old = "contents d StreamsCF k" and a = a] a(2)
      unfolding v' by (meson order_trans)
    with key v' show ?thesis by simp
  qed
qed

lemma packets_wf_write_batch:
  assumes wf: "store_wf (contents d)" and b: "write_batch R ser d xs = (n, b)"
  shows "packets_wf (apply_batch b (contents d))"
  unfolding packets_wf_def
proof (intro allI impI)
  fix k v assume v: "apply_batch b (contents d) PacketsCF k = Some v"
  then consider (put) x where "x \<in> set xs" "data_keyable x" "k = data_key x"
      "v = packet_value ser (fst x) (snd x)"
    | (kept) "contents d PacketsCF k = Some v"
    by (fastforce simp: write_contents(2) [OF b] map_add_def split: option.splits dest: map_of_SomeD)
  then show "length k = 40 \<and> 9 \<le> length v \<and> (\<exists>r. apply_batch b (contents d) StreamsCF (take 32 k) =
      Some r \<and> reg_min r \<le> seq_of k \<and> seq_of k \<le> reg_max r)"
  proof cases
    case put
    with write_batch_covers [OF b put(1,2)] show ?thesis by auto
  next
    case kept
    from packets_wfD [OF wf this] write_batch_keeps_entry [OF wf b] show ?thesis
      by (meson order_trans)
  qed
qed

lemma store_wf_write_batch:
  "store_wf (contents d) \<Longrightarrow> write_batch R ser d xs = (n, b) \<Longrightarrow> store_wf (apply_batch b (contents d))"
  using registry_wf_write_batch packets_wf_write_batch by (blast intro: store_wfI)

text \<open>The global sequence number is the largest maximum in the registry.\<close>

end

definition registry_maxes :: "view \<Rightarrow> u64 set" where
  "registry_maxes w = {reg_max v | k v. w StreamsCF k = Some v \<and> 24 \<le> length v}"

lemma Max_insert_max:
  "finite A \<Longrightarrow> Max (insert (max a b) A) = Max (insert a (insert b (A :: 'a::linorder set)))"
  by (cases "A = {}") (simp_all add: max.assoc)

lemma foldl_max_entries:
  fixes f :: "string \<Rightarrow> u64"
  shows "foldl (\<lambda>g (k, v). if P v then max g (f v) else g) g0 xs =
         Max (insert g0 {f v | k v. (k, v) \<in> set xs \<and> P v})"
proof (induction xs arbitrary: g0)
  case (Cons x xs)
  obtain k v where x: "x = (k, v)" by (cases x)
  let ?A = "{f v | k v. (k, v) \<in> set xs \<and> P v}"
  have fin: "finite ?A"
    by (rule finite_subset [of _ "(f \<circ> snd) ` set xs"]) force+
  have A': "{f v | k v. (k, v) \<in> set (x # xs) \<and> P v} = (if P v then insert (f v) ?A else ?A)"
    by (auto simp: x)
  show ?case
    unfolding A' by (simp add: x Cons.IH Max_insert_max [OF fin])
qed simp

context rocks_api
begin

lemma registry_maxes_scan:
  "registry_maxes (contents d) = {reg_max v | k v. (k, v) \<in> set (rdb_Scan R d StreamsCF) \<and> 24 \<le> length v}"
  by (auto simp: registry_maxes_def Scan_set)

lemma finite_registry_maxes: "finite (registry_maxes (contents d))"
proof -
  have "registry_maxes (contents d) \<subseteq> (\<lambda>x. reg_max (snd x)) ` set (rdb_Scan R d StreamsCF)"
    unfolding registry_maxes_scan by force
  then show ?thesis by (rule finite_subset) simp
qed

lemma getGlobalSequenceNumber_eq:
  "rd_mInitialized s \<Longrightarrow>
   getGlobalSequenceNumber R s = Inr (Max (insert 0 (registry_maxes (contents (database s)))))"
  by (simp add: getGlobalSequenceNumber_def foldl_max_entries registry_maxes_scan)

lemma registry_maxes_write_upper:
  assumes b: "write_batch R ser d xs = (n, b)" and m: "m \<in> registry_maxes (apply_batch b (contents d))"
  shows "m \<in> registry_maxes (contents d) \<union> data_seq ` set (filter data_keyable xs)"
proof -
  from m obtain k v where v: "apply_batch b (contents d) StreamsCF k = Some v" "m = reg_max v"
      "24 \<le> length v" by (auto simp: registry_maxes_def)
  let ?ys = "filter (\<lambda>x. data_keyable x \<and> data_stream x = k) xs"
  show ?thesis
  proof (cases "aggregate_of ?ys")
    case None
    with v show ?thesis by (auto simp: write_contents(3) [OF b] registry_maxes_def)
  next
    case (Some a)
    then have "v = merged_value (contents d StreamsCF k) a"
      using v by (simp add: write_contents(3) [OF b])
    with merged_value_bounds(4) [of "contents d StreamsCF k" a] aggregate_of_SomeD(3) [OF Some] v
    show ?thesis by (auto simp: registry_maxes_def)
  qed
qed

lemma registry_maxes_write_lower:
  assumes wf: "store_wf (contents d)" and b: "write_batch R ser d xs = (n, b)"
    and m: "m \<in> registry_maxes (contents d) \<union> data_seq ` set (filter data_keyable xs)"
  shows "\<exists>m'\<in>registry_maxes (apply_batch b (contents d)). m \<le> m'"
  using m
proof
  assume "m \<in> registry_maxes (contents d)"
  then obtain k v where v: "contents d StreamsCF k = Some v" "m = reg_max v"
    by (auto simp: registry_maxes_def)
  from write_batch_keeps_entry [OF wf b v(1)] v(2) show ?thesis
    by (force simp: registry_maxes_def)
next
  assume "m \<in> data_seq ` set (filter data_keyable xs)"
  then obtain x where x: "x \<in> set xs" "data_keyable x" "m = data_seq x" by auto
  from write_batch_covers [OF b x(1,2)] x(3) show ?thesis by (force simp: registry_maxes_def)
qed

lemma Max_insert_le_iff:
  "finite A \<Longrightarrow> Max (insert a A) \<le> (z :: 'a::linorder) \<longleftrightarrow> a \<le> z \<and> (\<forall>x\<in>A. x \<le> z)"
  by simp

lemma registry_maxes_write:
  assumes b: "write_batch R ser d xs = (n, b)" and d': "contents d' = apply_batch b (contents d)"
    and wf: "store_wf (contents d)"
  shows "Max (insert 0 (registry_maxes (contents d'))) =
         Max (insert (Max (insert 0 (registry_maxes (contents d))))
               (data_seq ` set (filter data_keyable xs)))" (is "?L = ?R")
proof -
  have fin: "finite (registry_maxes (apply_batch b (contents d)))"
    using finite_registry_maxes [of d'] by (simp add: d')
  let ?A = "registry_maxes (contents d)" and ?B = "registry_maxes (apply_batch b (contents d))"
    and ?S = "data_seq ` set (filter data_keyable xs)"
  have bounds: "(\<forall>m\<in>?B. m \<le> z) \<longleftrightarrow> (\<forall>m\<in>?A \<union> ?S. m \<le> z)" for z
    using registry_maxes_write_upper [OF b] registry_maxes_write_lower [OF wf b]
    by (meson order_trans)
  have "?L \<le> z \<longleftrightarrow> ?R \<le> z" for z
  proof -
    have "?L \<le> z \<longleftrightarrow> 0 \<le> z \<and> (\<forall>m\<in>?A \<union> ?S. m \<le> z)"
      by (simp only: d' Max_insert_le_iff [OF fin] bounds)
    also have "\<dots> \<longleftrightarrow> ?R \<le> z"
      by (subst Max_insert_le_iff, simp)
        (simp only: Max_insert_le_iff [OF finite_registry_maxes] ball_Un conj_assoc)
    finally show ?thesis .
  qed
  then show ?thesis by (meson order_antisym order_refl)
qed

end

section \<open>Writing, as an update of the stored packets\<close>

text \<open>The abstract store: for a stream and a sequence number, the receipt time and the serialized
  packet.  \<open>latest\<close> is the last packet of a batch with a given stream and number.\<close>

definition stored :: "view \<Rightarrow> StreamIdentifier \<Rightarrow> u64 \<Rightarrow> (i64 \<times> string) option" where
  "stored w i q = map_option (\<lambda>v. (getBigEndian64 v, drop 9 v))
                    (w PacketsCF (stream_key i @ be64 q))"

definition latest :: "(i64 \<times> Packet) list \<Rightarrow> StreamIdentifier \<Rightarrow> u64 \<Rightarrow> (i64 \<times> Packet) option" where
  "latest xs i q = find (\<lambda>x. keyable (stream_identifier (snd x)) \<and>
      canonical (stream_identifier (snd x)) = canonical i \<and> sequence_number (snd x) = q) (rev xs)"

text \<open>Did the database accept the batch a write builds?\<close>

definition write_status ::
  "'db rocks \<Rightarrow> (Packet \<Rightarrow> string) \<Rightarrow> (i64 \<times> Packet) list \<Rightarrow> 'db RocksDatabase \<Rightarrow> bool" where
  "write_status R ser xs s = fst (rdb_Write R (database s) (rd_mDisableWriteAheadLog s)
      (snd (write_batch R ser (database s) xs)))"

lemma map_of_find:
  "map_of (map (\<lambda>x. (f x, g x)) (filter P ys)) k = map_option g (find (\<lambda>x. P x \<and> f x = k) ys)"
  by (induction ys) auto

lemma find_cong': "(\<And>x. P x \<longleftrightarrow> Q x) \<Longrightarrow> find P xs = find Q xs"
  by (induction xs) auto

lemma latest_eq:
  assumes "keyable i"
  shows "latest xs i q = find (\<lambda>x. data_keyable x \<and> data_key x = stream_key i @ be64 q) (rev xs)"
  unfolding latest_def
proof (rule find_cong')
  fix x
  show "keyable (stream_identifier (snd x)) \<and> canonical (stream_identifier (snd x)) = canonical i \<and>
      sequence_number (snd x) = q \<longleftrightarrow> data_keyable x \<and> data_key x = stream_key i @ be64 q"
    using assms stream_key_eq_iff [of "stream_identifier (snd x)" i]
    by (auto simp: data_keyable_def data_key_def data_stream_def data_seq_def)
qed

context rocks_api
begin

lemma write_packets_ok:
  assumes "rd_mInitialized s" "xs \<noteq> []" "write_status R ser xs s"
  obtains n b d' where "write_packets R ser xs s = (Inr n, set_database d' s)"
    "write_batch R ser (database s) xs = (n, b)" "contents d' = apply_batch b (contents (database s))"
proof -
  obtain n b where b: "write_batch R ser (database s) xs = (n, b)" by force
  obtain d' where w: "rdb_Write R (database s) (rd_mDisableWriteAheadLog s) b = (True, d')"
    using assms(3) b by (cases "rdb_Write R (database s) (rd_mDisableWriteAheadLog s) b")
      (simp add: write_status_def)
  show thesis
    using that [OF _ b Write_ok [OF w]] assms by (simp add: write_packets_def b w)
qed

lemma write_packets_failed:
  assumes "rd_mInitialized s" "xs \<noteq> []" "\<not> write_status R ser xs s"
  obtains d' where "write_packets R ser xs s = (Inr (map snd xs), set_database d' s)"
    "contents d' = contents (database s)"
proof -
  obtain n b where b: "write_batch R ser (database s) xs = (n, b)" by force
  obtain d' where w: "rdb_Write R (database s) (rd_mDisableWriteAheadLog s) b = (False, d')"
    using assms(3) b by (cases "rdb_Write R (database s) (rd_mDisableWriteAheadLog s) b")
      (simp add: write_status_def)
  show thesis
    using that [OF _ Write_failed [OF w]] assms by (simp add: write_packets_def b w)
qed

lemma stored_write_batch_on:
  assumes "write_batch R ser d xs = (n, b)" "keyable i"
  shows "stored (apply_batch b w) i q =
    (case latest xs i q of None \<Rightarrow> stored w i q | Some x \<Rightarrow> Some (fst x, ser (snd x)))"
proof -
  have "map_of (rev (map (\<lambda>x. (data_key x, packet_value ser (fst x) (snd x)))
        (filter data_keyable xs))) (stream_key i @ be64 q)
      = map_option (\<lambda>x. packet_value ser (fst x) (snd x)) (latest xs i q)"
    by (simp add: rev_map rev_filter map_of_find latest_eq [OF assms(2)])
  then show ?thesis
    using assms by (auto simp: stored_def write_contents_on(1) [OF assms(1)] map_add_def
        split: option.split)
qed

lemmas stored_write_batch = stored_write_batch_on [where w = "contents d" and d = d for d]

lemma write_packets_wf:
  assumes wf: "store_wf (contents (database s))"
  shows "store_wf (contents (database (snd (write_packets R ser xs s))))"
proof (cases "rd_mInitialized s \<and> xs \<noteq> []")
  case True
  show ?thesis
  proof (cases "write_status R ser xs s")
    case ok: True
    from True write_packets_ok [OF _ _ ok] obtain n b d' where
      "write_packets R ser xs s = (Inr n, set_database d' s)"
      "write_batch R ser (database s) xs = (n, b)"
      "contents d' = apply_batch b (contents (database s))" by blast
    then show ?thesis using store_wf_write_batch [OF wf] by simp
  next
    case False
    from True write_packets_failed [OF _ _ False] obtain d' where
      "write_packets R ser xs s = (Inr (map snd xs), set_database d' s)"
      "contents d' = contents (database s)" by blast
    then show ?thesis using wf by simp
  qed
next
  case False
  then show ?thesis using wf by (cases "rd_mInitialized s") (auto simp: write_packets_def)
qed

section \<open>Queries\<close>

lemma query_loop_append:
  "query_loop p xs rs = rs @ query_loop p xs []"
proof (induction xs arbitrary: rs)
  case (Cons x xs)
  obtain k v where x: "x = (k, v)" by (cases x)
  let ?r = "\<lparr>qr_packet = drop packetsValueHeaderLength v, qr_receivedAt = getBigEndian64 v,
      qr_sequenceNumber = getBigEndian64 (drop streamKeyLength k)\<rparr>"
  show ?case
    using Cons.IH [of "rs @ [?r]"] Cons.IH [of "[?r]"] Cons.IH [of rs] by (simp add: x)
qed simp

end

definition response_of :: "string \<times> string \<Rightarrow> QueryResponse" where
  "response_of x = \<lparr>qr_packet = drop 9 (snd x), qr_receivedAt = getBigEndian64 (snd x),
                    qr_sequenceNumber = seq_of (fst x)\<rparr>"

lemma query_loop_map:
  assumes "\<And>k v. (k, v) \<in> set xs \<Longrightarrow> starts_with k p \<and> length k = 40 \<and> 9 \<le> length v"
  shows "query_loop p xs rs = rs @ map response_of xs"
  using assms
proof (induction xs arbitrary: rs)
  case (Cons x xs)
  obtain k v where x: "x = (k, v)" by (cases x)
  have "starts_with k p" "length k = 40" "9 \<le> length v"
    using Cons.prems [of k v] by (auto simp: x)
  moreover from this have "response_of x = \<lparr>qr_packet = drop 9 v,
      qr_receivedAt = getBigEndian64 v, qr_sequenceNumber = getBigEndian64 (drop 32 k)\<rparr>"
    by (simp add: x response_of_def seq_of_def be_simps)
  moreover have "query_loop p xs rs' = rs' @ map response_of xs" for rs'
    by (rule Cons.IH) (use Cons.prems in auto)
  ultimately show ?case by (simp add: x)
qed simp

context rocks_api
begin

lemma seek_packets:
  assumes wf: "store_wf (contents d)" and i: "keyable i"
  shows "(k, v) \<in> set (rdb_Seek R d PacketsCF (stream_key i @ be64 q)) \<longleftrightarrow>
     (\<exists>n. k = stream_key i @ be64 n \<and> q \<le> n \<and> contents d PacketsCF k = Some v)"
proof
  assume "(k, v) \<in> set (rdb_Seek R d PacketsCF (stream_key i @ be64 q))"
  then have v: "contents d PacketsCF k = Some v" and le: "stream_key i @ be64 q \<le> k"
    and pre: "take 32 k = stream_key i"
    using i by (auto simp: Seek_set)
  from packet_key_split [OF packets_wfD(1) [OF wf v]] pre
  have k: "k = stream_key i @ be64 (seq_of k)" by simp
  with le have "q \<le> seq_of k" by (metis append_le_iff be64_le_iff less_irrefl)
  with k v show "\<exists>n. k = stream_key i @ be64 n \<and> q \<le> n \<and> contents d PacketsCF k = Some v" by blast
next
  assume "\<exists>n. k = stream_key i @ be64 n \<and> q \<le> n \<and> contents d PacketsCF k = Some v"
  then show "(k, v) \<in> set (rdb_Seek R d PacketsCF (stream_key i @ be64 q))"
    using i by (auto simp: Seek_set append_le_iff)
qed

lemma query_stream_eq:
  assumes wf: "store_wf (contents d)" and i: "keyable i"
  shows "query_stream R d rs (i, q) =
         rs @ map response_of (rdb_Seek R d PacketsCF (stream_key i @ be64 q))"
proof -
  have "starts_with k (stream_key i) \<and> length k = 40 \<and> 9 \<le> length v"
    if "(k, v) \<in> set (rdb_Seek R d PacketsCF (stream_key i @ be64 q))" for k v
    using that i packets_wfD(2) [OF wf] by (auto simp: seek_packets [OF wf i] starts_with_def)
  then show ?thesis using i by (simp add: query_stream_def query_loop_map)
qed

lemma query_stream_unkeyable: "\<not> keyable i \<Longrightarrow> query_stream R d rs (i, q) = rs"
  using toPacketKey_Inl_iff [of i q]
  by (auto simp: query_stream_def toStreamKey_Inr_iff split: sum.split)

lemma sorted_responses:
  assumes wf: "store_wf (contents d)" and i: "keyable i"
  shows "sorted_wrt (\<lambda>x y. qr_sequenceNumber x < qr_sequenceNumber y)
           (map response_of (rdb_Seek R d PacketsCF (stream_key i @ be64 q)))"
proof -
  let ?xs = "rdb_Seek R d PacketsCF (stream_key i @ be64 q)"
  have "sorted_wrt (\<lambda>x y. seq_of (fst x) < seq_of (fst y)) ?xs"
  proof (rule sorted_wrt_mono_rel [OF _ Seek_sorted])
    fix x y assume "x \<in> set ?xs" "y \<in> set ?xs" and less: "fst x < fst y"
    then obtain n m where "fst x = stream_key i @ be64 n" "fst y = stream_key i @ be64 m"
      using seek_packets [OF wf i, of "fst x" "snd x"] seek_packets [OF wf i, of "fst y" "snd y"]
      by auto
    with less i show "seq_of (fst x) < seq_of (fst y)" by (simp add: append_less_iff)
  qed
  then show ?thesis by (simp add: sorted_wrt_map response_of_def)
qed

lemma set_responses:
  assumes wf: "store_wf (contents d)" and i: "keyable i"
  shows "set (map response_of (rdb_Seek R d PacketsCF (stream_key i @ be64 q))) =
     {\<lparr>qr_packet = p, qr_receivedAt = t, qr_sequenceNumber = n\<rparr> | n t p.
        q \<le> n \<and> stored (contents d) i n = Some (t, p)}" (is "?L = ?R")
proof
  show "?L \<subseteq> ?R"
    using i by (fastforce simp: seek_packets [OF wf i] response_of_def stored_def)
  show "?R \<subseteq> ?L"
  proof
    fix r assume "r \<in> ?R"
    then obtain n v where v: "q \<le> n" "contents d PacketsCF (stream_key i @ be64 n) = Some v"
      and r: "r = response_of (stream_key i @ be64 n, v)"
      using i by (auto simp: stored_def response_of_def)
    have "(stream_key i @ be64 n, v) \<in> set (rdb_Seek R d PacketsCF (stream_key i @ be64 q))"
      using v by (auto simp: seek_packets [OF wf i])
    then show "r \<in> ?L" by (simp add: r image_iff) force
  qed
qed

lemma query_eq:
  assumes wf: "store_wf (contents (database s))" and "rd_mInitialized s"
  shows "query R qs s = Inr (concat (map (\<lambda>(i, q). if keyable i then map response_of
           (rdb_Seek R (database s) PacketsCF (stream_key i @ be64 q)) else []) qs))"
proof -
  have "foldl (query_stream R (database s)) rs qs = rs @ concat (map (\<lambda>(i, q). if keyable i
      then map response_of (rdb_Seek R (database s) PacketsCF (stream_key i @ be64 q)) else []) qs)" for rs
  proof (induction qs arbitrary: rs)
    case (Cons x qs)
    obtain i q where x: "x = (i, q)" by (cases x)
    show ?case
      by (cases "keyable i")
        (simp_all add: x Cons.IH query_stream_eq [OF wf] query_stream_unkeyable)
  qed simp
  then show ?thesis using assms(2) by (simp add: query_def)
qed

section \<open>Listing the streams\<close>

lemma queryAvailableStreams_eq:
  assumes wf: "store_wf (contents (database s))" and "rd_mInitialized s"
  shows "queryAvailableStreams R s = Inr (map (\<lambda>(k, v).
           (reg_last v, projr (fromStreamKey k empty_identifier)))
           (rdb_Scan R (database s) StreamsCF))"
proof -
  let ?f = "\<lambda>result (key, value). case fromStreamKey key empty_identifier of Inl _ \<Rightarrow> result
     | Inr identifier \<Rightarrow> result @
         [(if streamsValueLength \<le> length value then getBigEndian64 (drop 16 value) else 0, identifier)]"
  have fold: "foldl ?f rs xs = rs @ map (\<lambda>(k, v). (reg_last v, projr (fromStreamKey k empty_identifier))) xs"
    if "\<And>k v. (k, v) \<in> set xs \<Longrightarrow> contents (database s) StreamsCF k = Some v" for rs xs
    using that
  proof (induction xs arbitrary: rs)
    case (Cons x xs)
    obtain k v where x: "x = (k, v)" by (cases x)
    with Cons.prems have v: "contents (database s) StreamsCF k = Some v" by simp
    note w = registry_wfD [OF wf v]
    from w(1) obtain i where "keyable i" "k = stream_key i" by blast
    then show ?case using Cons w(3) by (simp add: x fromStreamKey_stream_key)
  qed simp
  have "foldl ?f [] (rdb_Scan R (database s) StreamsCF) = map (\<lambda>(k, v).
      (reg_last v, projr (fromStreamKey k empty_identifier))) (rdb_Scan R (database s) StreamsCF)"
    by (subst fold) (auto simp: Scan_set)
  then show ?thesis using assms(2) by (simp only: queryAvailableStreams_def ensureInitialized_simps sum.case)
qed

lemma set_available_streams:
  assumes wf: "store_wf (contents d)"
  shows "set (map (\<lambda>(k, v). (reg_last v, projr (fromStreamKey k empty_identifier)))
           (rdb_Scan R d StreamsCF)) =
         {(reg_last v, canonical i) | i v. keyable i \<and> contents d StreamsCF (stream_key i) = Some v}"
proof -
  have "(t, j) \<in> (\<lambda>(k, v). (reg_last v, projr (fromStreamKey k empty_identifier)))
          ` set (rdb_Scan R d StreamsCF) \<longleftrightarrow>
        (\<exists>i v. t = reg_last v \<and> j = canonical i \<and> keyable i \<and>
               contents d StreamsCF (stream_key i) = Some v)" for t j
  proof
    assume "(t, j) \<in> (\<lambda>(k, v). (reg_last v, projr (fromStreamKey k empty_identifier)))
          ` set (rdb_Scan R d StreamsCF)"
    then obtain k v where v: "contents d StreamsCF k = Some v" "t = reg_last v"
        "j = projr (fromStreamKey k empty_identifier)" by (auto simp: Scan_set)
    from registry_wfD(1) [OF wf v(1)] obtain i where i: "keyable i" "k = stream_key i" by blast
    with v show "\<exists>i v. t = reg_last v \<and> j = canonical i \<and> keyable i \<and>
        contents d StreamsCF (stream_key i) = Some v"
      by (auto simp: fromStreamKey_stream_key)
  next
    assume "\<exists>i v. t = reg_last v \<and> j = canonical i \<and> keyable i \<and>
        contents d StreamsCF (stream_key i) = Some v"
    then show "(t, j) \<in> (\<lambda>(k, v). (reg_last v, projr (fromStreamKey k empty_identifier)))
          ` set (rdb_Scan R d StreamsCF)"
      by (force simp: Scan_set image_iff fromStreamKey_stream_key)
  qed
  note iff = this
  show ?thesis unfolding set_map by (intro set_eqI) (auto simp only: iff split_paired_all mem_Collect_eq prod.inject)
qed

end

end
