(* ===== verification/Rocks_Truncate.thy ===== *)
theory Rocks_Truncate
  imports Rocks_Store
begin

text \<open>
  Correctness of \<open>RocksDatabaseImpl::truncateOldest\<close>: the snapshot computes the range of the
  registry, the batch it writes has the effect \<open>truncate_view\<close>, that effect keeps the store
  invariant and removes exactly the packets below the cutoff, and the number reported is the
  distance of the cutoff from the oldest packet.
\<close>

section \<open>The snapshot\<close>

definition entry_of :: "string \<times> string \<Rightarrow> Entry" where
  "entry_of x = \<lparr>en_streamKey = fst x, en_minSequenceNumber = reg_min (snd x),
                 en_maxSequenceNumber = reg_max (snd x), en_lastReceivedNanoSeconds = reg_last (snd x)\<rparr>"

lemma entry_of_simps [simp]:
  "en_streamKey (entry_of x) = fst x"
  "en_minSequenceNumber (entry_of x) = reg_min (snd x)"
  "en_maxSequenceNumber (entry_of x) = reg_max (snd x)"
  "en_lastReceivedNanoSeconds (entry_of x) = reg_last (snd x)"
  by (simp_all add: entry_of_def)

lemma snapshot_loop:
  "(\<And>k v. (k, v) \<in> set xs \<Longrightarrow> length v = 24) \<Longrightarrow>
   foldl snapshot_entry (es, lo, hi) xs =
     (es @ map entry_of xs, Min (insert lo ((\<lambda>x. reg_min (snd x)) ` set xs)),
      Max (insert hi ((\<lambda>x. reg_max (snd x)) ` set xs)))"
proof (induction xs arbitrary: es lo hi)
  case (Cons x xs)
  obtain k v where x: "x = (k, v)" by (cases x)
  have step: "snapshot_entry (es, lo, hi) x =
      (es @ [entry_of x], min lo (reg_min v), max hi (reg_max v))"
    using Cons.prems [of k v] by (simp add: x snapshot_entry_def entry_of_def)
  have "foldl snapshot_entry (es @ [entry_of x], min lo (reg_min v), max hi (reg_max v)) xs =
      ((es @ [entry_of x]) @ map entry_of xs,
       Min (insert (min lo (reg_min v)) ((\<lambda>x. reg_min (snd x)) ` set xs)),
       Max (insert (max hi (reg_max v)) ((\<lambda>x. reg_max (snd x)) ` set xs)))"
    by (rule Cons.IH) (use Cons.prems in auto)
  then show ?case
    by (cases "xs = []") (simp_all add: step [unfolded x] x min.assoc max.assoc)
qed simp

text \<open>The range of the registry: its smallest minimum and largest maximum.\<close>

definition registry_range :: "view \<Rightarrow> u64 \<Rightarrow> u64 \<Rightarrow> bool" where
  "registry_range w lo hi \<longleftrightarrow>
     (\<forall>k v. w StreamsCF k = Some v \<longrightarrow> lo \<le> reg_min v \<and> reg_max v \<le> hi) \<and>
     (\<exists>k v. w StreamsCF k = Some v \<and> reg_min v = lo) \<and>
     (\<exists>k v. w StreamsCF k = Some v \<and> reg_max v = hi)"

lemma registry_range_unique:
  "registry_range w lo hi \<Longrightarrow> registry_range w lo' hi' \<Longrightarrow> lo = lo' \<and> hi = hi'"
  unfolding registry_range_def by (meson order_antisym)

lemma registry_range_le: "store_wf w \<Longrightarrow> registry_range w lo hi \<Longrightarrow> lo \<le> hi"
  unfolding registry_range_def using registry_wfD(4) by (meson order_trans)

context rocks_api
begin

lemma snapshot_eq:
  assumes wf: "store_wf (contents d)" and r: "registry_range (contents d) lo hi"
  shows "snapshot R d = (map entry_of (rdb_Scan R d StreamsCF), lo, hi)"
proof -
  let ?xs = "rdb_Scan R d StreamsCF"
  have len: "length v = 24" if "(k, v) \<in> set ?xs" for k v
    using that registry_wfD(3) [OF wf] by (auto simp: Scan_set)
  have "Min (insert (- 1) ((\<lambda>x. reg_min (snd x)) ` set ?xs)) = lo"
  proof (rule Min_eqI)
    show "lo \<in> insert (- 1) ((\<lambda>x. reg_min (snd x)) ` set ?xs)"
      using r by (force simp: registry_range_def Scan_set)
    show "lo \<le> y" if "y \<in> insert (- 1) ((\<lambda>x. reg_min (snd x)) ` set ?xs)" for y
      using that r by (auto simp: registry_range_def Scan_set)
  qed simp
  moreover have "Max (insert 0 ((\<lambda>x. reg_max (snd x)) ` set ?xs)) = hi"
  proof (rule Max_eqI)
    show "hi \<in> insert 0 ((\<lambda>x. reg_max (snd x)) ` set ?xs)"
      using r by (force simp: registry_range_def Scan_set)
    show "y \<le> hi" if "y \<in> insert 0 ((\<lambda>x. reg_max (snd x)) ` set ?xs)" for y
      using that r by (auto simp: registry_range_def Scan_set)
  qed simp
  ultimately show ?thesis by (simp add: snapshot_def snapshot_loop [OF len])
qed

lemma snapshot_empty: "contents d StreamsCF = Map.empty \<Longrightarrow> snapshot R d = ([], - 1, 0)"
  using Scan_set [of d StreamsCF] by (simp add: snapshot_def)

lemma registry_range_exists:
  assumes "store_wf (contents d)" "contents d StreamsCF \<noteq> Map.empty"
  shows "\<exists>lo hi. registry_range (contents d) lo hi"
proof -
  let ?S = "set (rdb_Scan R d StreamsCF)"
  from assms(2) obtain k v where "(k, v) \<in> ?S" by (auto simp: Scan_set fun_eq_iff)
  then have ne: "(\<lambda>x. reg_min (snd x)) ` ?S \<noteq> {}" "(\<lambda>x. reg_max (snd x)) ` ?S \<noteq> {}" by auto
  have "registry_range (contents d) (Min ((\<lambda>x. reg_min (snd x)) ` ?S)) (Max ((\<lambda>x. reg_max (snd x)) ` ?S))"
    unfolding registry_range_def
  proof (intro conjI allI impI)
    fix k v assume "contents d StreamsCF k = Some v"
    then have "(k, v) \<in> ?S" by (simp add: Scan_set)
    then show "Min ((\<lambda>x. reg_min (snd x)) ` ?S) \<le> reg_min v" "reg_max v \<le> Max ((\<lambda>x. reg_max (snd x)) ` ?S)"
      by (auto intro!: Min_le Max_ge rev_image_eqI)
  next
    show "\<exists>k v. contents d StreamsCF k = Some v \<and> reg_min v = Min ((\<lambda>x. reg_min (snd x)) ` ?S)"
    proof -
      obtain x where "x \<in> ?S" "reg_min (snd x) = Min ((\<lambda>x. reg_min (snd x)) ` ?S)"
        using Min_in [OF _ ne(1)] by (metis (no_types, lifting) List.finite_set finite_imageI imageE)
      moreover from this(1) have "contents d StreamsCF (fst x) = Some (snd x)"
        unfolding Scan_set by auto
      ultimately show ?thesis by metis
    qed
    show "\<exists>k v. contents d StreamsCF k = Some v \<and> reg_max v = Max ((\<lambda>x. reg_max (snd x)) ` ?S)"
    proof -
      obtain x where "x \<in> ?S" "reg_max (snd x) = Max ((\<lambda>x. reg_max (snd x)) ` ?S)"
        using Max_in [OF _ ne(2)] by (metis (no_types, lifting) List.finite_set finite_imageI imageE)
      moreover from this(1) have "contents d StreamsCF (fst x) = Some (snd x)"
        unfolding Scan_set by auto
      ultimately show ?thesis by metis
    qed
  qed
  then show ?thesis by blast
qed

end

section \<open>The effect of the batch\<close>

definition entry_ops :: "u64 \<Rightarrow> Entry \<Rightarrow> batch_op list" where
  "entry_ops cutoff e =
     (if cutoff \<le> en_minSequenceNumber e then []
      else [DeleteRange PacketsCF (en_streamKey e @ be64 0) (en_streamKey e @ be64 cutoff),
            if en_maxSequenceNumber e < cutoff then Delete StreamsCF (en_streamKey e)
            else Put StreamsCF (en_streamKey e) (registry_value cutoff (en_maxSequenceNumber e)
                   (en_lastReceivedNanoSeconds e))])"

lemma truncate_loop:
  "\<exists>rs. foldl (truncate_entry cutoff) (b, cs) es = (b @ concat (map (entry_ops cutoff) es), rs)"
proof (induction es arbitrary: b cs)
  case (Cons e es)
  have "\<exists>cs'. truncate_entry cutoff (b, cs) e = (b @ entry_ops cutoff e, cs')"
    by (cases "cutoff \<le> en_minSequenceNumber e")
      (simp_all add: truncate_entry_def entry_ops_def be_simps Let_def)
  then obtain cs' where "truncate_entry cutoff (b, cs) e = (b @ entry_ops cutoff e, cs')" ..
  then show ?case using Cons.IH [of "b @ entry_ops cutoff e" cs'] by simp
qed simp

definition truncated_entry :: "u64 \<Rightarrow> string \<Rightarrow> string option" where
  "truncated_entry cutoff v =
     (if cutoff \<le> reg_min v then Some v
      else if reg_max v < cutoff then None
      else Some (registry_value cutoff (reg_max v) (reg_last v)))"

text \<open>What a truncation at a cutoff promises to leave.\<close>

definition truncate_view :: "u64 \<Rightarrow> view \<Rightarrow> view" where
  "truncate_view cutoff w c k =
     (case w c k of None \<Rightarrow> None | Some v \<Rightarrow>
        (case c of PacketsCF \<Rightarrow> if seq_of k < cutoff then None else Some v
                 | StreamsCF \<Rightarrow> truncated_entry cutoff v
                 | DefaultCF \<Rightarrow> Some v))"

lemma apply_entry_ops_other:
  "apply_batch (entry_ops cutoff e) w DefaultCF = w DefaultCF"
  "k \<noteq> en_streamKey e \<Longrightarrow> apply_batch (entry_ops cutoff e) w StreamsCF k = w StreamsCF k"
  by (simp_all add: entry_ops_def)

lemma apply_entry_ops_streams:
  "w StreamsCF k = Some v \<Longrightarrow>
   apply_batch (entry_ops cutoff (entry_of (k, v))) w StreamsCF k = truncated_entry cutoff v"
  by (auto simp: entry_ops_def truncated_entry_def)

lemma apply_entry_ops_packets:
  "length k = 40 \<Longrightarrow> length sk = 32 \<Longrightarrow>
   apply_batch (entry_ops cutoff (entry_of (sk, v))) w PacketsCF k =
     (if reg_min v < cutoff \<and> take 32 k = sk \<and> seq_of k < cutoff then None else w PacketsCF k)"
  by (subst (1 2) packet_key_split)
    (auto simp: entry_ops_def append_le_iff append_less_iff be64_le_iff be64_less_iff not_le)

lemma apply_ops_streams:
  assumes "distinct (map fst xs)"
  shows "apply_batch (concat (map (entry_ops cutoff) (map entry_of xs))) w StreamsCF k =
    (if k \<in> fst ` set xs
     then apply_batch (entry_ops cutoff (entry_of (k, the (map_of xs k)))) w StreamsCF k
     else w StreamsCF k)"
  using assms
proof (induction xs arbitrary: w)
  case (Cons x xs)
  obtain k' v where x: "x = (k', v)" by (cases x)
  show ?case
  proof (cases "k = k'")
    case True
    then show ?thesis using Cons by (simp add: x)
  next
    case False
    have cong: "apply_batch (entry_ops cutoff (entry_of (k, u))) w1 StreamsCF k =
        apply_batch (entry_ops cutoff (entry_of (k, u))) w2 StreamsCF k"
      if "w1 StreamsCF k = w2 StreamsCF k" for w1 w2 u using that by (simp add: entry_ops_def)
    from False Cons show ?thesis
      by (auto simp: x apply_entry_ops_other intro!: cong)
  qed
qed simp

lemma apply_ops_packets:
  assumes "length k = 40" "\<And>sk v. (sk, v) \<in> set xs \<Longrightarrow> length sk = 32"
  shows "apply_batch (concat (map (entry_ops cutoff) (map entry_of xs))) w PacketsCF k =
    (if (\<exists>v. (take 32 k, v) \<in> set xs \<and> reg_min v < cutoff) \<and> seq_of k < cutoff then None
     else w PacketsCF k)"
  using assms(2)
proof (induction xs arbitrary: w)
  case (Cons x xs)
  obtain sk v where x: "x = (sk, v)" by (cases x)
  have IH: "apply_batch (concat (map (entry_ops cutoff) (map entry_of xs))) w' PacketsCF k =
      (if (\<exists>v. (take 32 k, v) \<in> set xs \<and> reg_min v < cutoff) \<and> seq_of k < cutoff then None
       else w' PacketsCF k)" for w' by (rule Cons.IH) (use Cons.prems in auto)
  have "length sk = 32" using Cons.prems [of sk v] by (simp add: x)
  then show ?case using assms(1) IH by (auto simp: x apply_entry_ops_packets)
qed simp

context rocks_api
begin

lemma key_sorted_distinct: "key_sorted xs \<Longrightarrow> distinct (map fst xs)"
  by (induction xs) auto

lemma map_of_scan: "map_of (rdb_Scan R d c) = contents d c"
proof
  fix k
  have dist: "distinct (map fst (rdb_Scan R d c))" by (rule key_sorted_distinct [OF Scan_sorted])
  show "map_of (rdb_Scan R d c) k = contents d c k"
  proof (cases "contents d c k")
    case None
    then show ?thesis by (auto simp: map_of_eq_None_iff Scan_set)
  next
    case (Some v)
    then have "(k, v) \<in> set (rdb_Scan R d c)" by (simp add: Scan_set)
    with dist Some show ?thesis by simp
  qed
qed

text \<open>The batch a truncation writes has the promised effect.\<close>

abbreviation registry_ops :: "u64 \<Rightarrow> 'db \<Rightarrow> batch_op list" where
  "registry_ops cutoff d \<equiv> concat (map (entry_ops cutoff) (map entry_of (rdb_Scan R d StreamsCF)))"

lemma truncate_streams:
  "apply_batch (registry_ops cutoff d) (contents d) StreamsCF k =
   truncate_view cutoff (contents d) StreamsCF k"
proof (cases "contents d StreamsCF k")
  case None
  then show ?thesis unfolding apply_ops_streams [OF key_sorted_distinct [OF Scan_sorted]]
    by (auto simp: truncate_view_def Scan_set)
next
  case (Some v)
  then have "k \<in> fst ` set (rdb_Scan R d StreamsCF)" by (force simp: Scan_set)
  with Some show ?thesis unfolding apply_ops_streams [OF key_sorted_distinct [OF Scan_sorted]]
    by (simp add: truncate_view_def map_of_scan apply_entry_ops_streams)
qed

lemma truncate_packets:
  assumes wf: "store_wf (contents d)"
  shows "apply_batch (registry_ops cutoff d) (contents d) PacketsCF k =
         truncate_view cutoff (contents d) PacketsCF k"
proof (cases "contents d PacketsCF k")
  case None
  have "apply_batch (concat (map (entry_ops cutoff) es)) w PacketsCF k = None"
    if "w PacketsCF k = None" for es w using that
    by (induction es arbitrary: w) (simp_all add: entry_ops_def)
  from this [where w = "contents d", OF None] None show ?thesis by (simp add: truncate_view_def del: map_map)
next
  case (Some v)
  note p = packets_wfD [OF wf Some]
  have keys: "length sk = 32" if "(sk, u) \<in> set (rdb_Scan R d StreamsCF)" for sk u
    using that registry_wfD(2) [OF wf] by (auto simp: Scan_set)
  note eq = apply_ops_packets [OF p(1) keys, where cutoff = cutoff and w = "contents d"]
  from p(3) obtain r where r: "(take 32 k, r) \<in> set (rdb_Scan R d StreamsCF)" "reg_min r \<le> seq_of k"
    by (auto simp: Scan_set)
  show ?thesis
    by (subst eq) (use Some r in \<open>auto simp: truncate_view_def\<close>)
qed

lemma truncate_batch:
  assumes wf: "store_wf (contents d)"
    and b: "fst (foldl (truncate_entry cutoff) ([], []) (map entry_of (rdb_Scan R d StreamsCF))) = b"
  shows "apply_batch b (contents d) = truncate_view cutoff (contents d)"
proof -
  have b: "b = registry_ops cutoff d"
    using b truncate_loop [of cutoff "[]" "[]" "map entry_of (rdb_Scan R d StreamsCF)"] by auto
  have other: "apply_batch (concat (map (entry_ops cutoff) es)) w DefaultCF = w DefaultCF" for es w
    by (induction es arbitrary: w) (simp_all add: apply_entry_ops_other)
  have "apply_batch b (contents d) c k = truncate_view cutoff (contents d) c k" for c k
    unfolding b
    by (cases c) (simp_all only: truncate_streams truncate_packets [OF wf] other,
        simp add: truncate_view_def split: option.split)
  then show ?thesis by (simp add: fun_eq_iff)
qed

end

lemma store_wf_truncate_view:
  assumes wf: "store_wf w" shows "store_wf (truncate_view cutoff w)"
proof (rule store_wfI)
  show "registry_wf (truncate_view cutoff w)"
    using registry_wfD [OF wf]
    by (auto simp: registry_wf_def truncate_view_def truncated_entry_def split: option.splits if_splits)
  show "packets_wf (truncate_view cutoff w)"
    unfolding packets_wf_def
  proof (intro allI impI)
    fix k v assume "truncate_view cutoff w PacketsCF k = Some v"
    then have v: "w PacketsCF k = Some v" and ge: "cutoff \<le> seq_of k"
      by (auto simp: truncate_view_def split: option.splits if_splits)
    note p = packets_wfD [OF wf v]
    from p(3) obtain r where r: "w StreamsCF (take 32 k) = Some r" "reg_min r \<le> seq_of k"
      "seq_of k \<le> reg_max r" by blast
    from r ge have "\<exists>r'. truncate_view cutoff w StreamsCF (take 32 k) = Some r' \<and>
        reg_min r' \<le> seq_of k \<and> seq_of k \<le> reg_max r'"
      by (auto simp: truncate_view_def truncated_entry_def)
    with p(1,2) show "length k = 40 \<and> 9 \<le> length v \<and> (\<exists>r. truncate_view cutoff w StreamsCF
        (take 32 k) = Some r \<and> reg_min r \<le> seq_of k \<and> seq_of k \<le> reg_max r)" by blast
  qed
qed

lemma stored_truncate_view:
  "keyable i \<Longrightarrow> stored (truncate_view cutoff w) i q = (if q < cutoff then None else stored w i q)"
  by (simp add: stored_def truncate_view_def split: option.split)

lemma truncate_view_below:
  assumes wf: "store_wf w" and r: "registry_range w lo hi" and c: "cutoff \<le> lo"
  shows "truncate_view cutoff w = w"
proof -
  have reg: "cutoff \<le> reg_min v" if "w StreamsCF k = Some v" for k v
    using that r c by (auto simp: registry_range_def intro: order_trans)
  then have "\<not> seq_of k < cutoff" if "w PacketsCF k = Some v" for k v
    using packets_wfD(3) [OF wf that] by (meson not_less order_trans)
  with reg have "truncate_view cutoff w c k = w c k" for c k
    by (cases c) (auto simp: truncate_view_def truncated_entry_def split: option.split)
  then show ?thesis by (simp add: fun_eq_iff)
qed

section \<open>The cutoff\<close>

lemma unat_plus_one: "hi \<noteq> - 1 \<Longrightarrow> unat (hi + 1 :: u64) = unat hi + 1"
  using unatSuc [of hi] by (simp add: add.commute eq_neg_iff_add_eq_0)

lemma unat_plus_no_wrap: "unat (a :: u64) + unat b < 2 ^ 64 \<Longrightarrow> unat (a + b) = unat a + unat b"
  by (simp add: unat_word_ariths)

lemma unat_less_64: "unat (a :: u64) < 2 ^ 64"
  by (rule order_less_le_trans [OF unsigned_less]) simp

lemma truncation_cutoff_unat:
  assumes "unat lo + unat n < 2 ^ 64" "unat hi + 1 < 2 ^ 64"
  shows "unat (truncation_cutoff lo hi n) = min (unat lo + unat n) (unat hi + 1)"
proof -
  have hi: "unat (hi + 1) = unat hi + 1"
    using assms(2) unat_plus_no_wrap [of hi 1] by simp
  show ?thesis
    using unat_plus_no_wrap [OF assms(1)] by (simp add: truncation_cutoff_def hi word_less_nat_alt)
qed

lemma truncation_cutoff_wrap:
  assumes "lo \<le> hi" "hi \<noteq> - 1" "2 ^ 64 \<le> unat lo + unat n"
  shows "truncation_cutoff lo hi n = lo + n" "lo + n < lo"
proof -
  have "unat (lo + n) = unat lo + unat n - 2 ^ 64"
    using assms(3) unat_less_64 [of lo] unat_less_64 [of n] by (simp add: unat_word_ariths le_mod_geq)
  then show less: "lo + n < lo"
    using unat_less_64 [of n] assms(3) unfolding word_less_nat_alt by simp
  moreover have "lo < hi + 1"
    using assms(1,2) unat_plus_one [of hi] by (simp add: word_less_nat_alt word_le_nat_alt)
  ultimately have "lo + n < hi + 1" by (rule less_trans)
  then show "truncation_cutoff lo hi n = lo + n"
    by (simp add: truncation_cutoff_def Let_def not_less [symmetric] less_not_sym)
qed

section \<open>The operation\<close>

context rocks_api
begin

lemma CompactRange_fold:
  "contents (foldl (\<lambda>d r. rdb_CompactRange R d c (Some r)) d rs) = contents d"
  by (induction rs arbitrary: d) (simp_all add: CompactRange)

lemma truncateOldest_none:
  assumes "rd_mInitialized s" "n = 0 \<or> contents (database s) StreamsCF = Map.empty"
  shows "truncateOldest R n s = (Inr 0, s)"
  using assms by (auto simp: truncateOldest_def snapshot_empty)

lemma truncateOldest_range:
  assumes wf: "store_wf (contents (database s))" and s: "rd_mInitialized s" "n \<noteq> 0"
    and r: "registry_range (contents (database s)) lo hi"
  obtains (nothing) "truncation_cutoff lo hi n = lo" "truncateOldest R n s = (Inr 0, s)"
    | (failed) d b where "truncateOldest R n s = (Inr 0, set_database d s)"
        "contents d = contents (database s)"
        "rdb_Write R (database s) (rd_mDisableWriteAheadLog s) b = (False, d)"
    | (deleted) d where "truncateOldest R n s = (Inr (truncation_cutoff lo hi n - lo), set_database d s)"
        "contents d = truncate_view (truncation_cutoff lo hi n) (contents (database s))"
        "truncation_cutoff lo hi n \<noteq> lo"
proof -
  let ?c = "truncation_cutoff lo hi n" and ?es = "map entry_of (rdb_Scan R (database s) StreamsCF)"
  obtain b rs where fold: "foldl (truncate_entry ?c) ([], []) ?es = (b, rs)" by force
  obtain ok d where w: "rdb_Write R (database s) (rd_mDisableWriteAheadLog s) b = (ok, d)" by force
  have ne: "?es \<noteq> []"
    using r Scan_set [of "database s" StreamsCF] by (auto simp: registry_range_def)
  have le: "\<not> lo > hi" using registry_range_le [OF wf r] by simp
  let ?d = "rdb_CompactRange R (foldl (\<lambda>d r. rdb_CompactRange R d PacketsCF (Some r)) d rs) StreamsCF None"
  have eq: "truncateOldest R n s = (if ?c = lo then (Inr 0, s) else if \<not> ok then (Inr 0, set_database d s)
      else (Inr (?c - lo), set_database ?d s))"
    using s ne le by (simp add: truncateOldest_def snapshot_eq [OF wf r] fold w)
  have all: "apply_batch b (contents (database s)) = truncate_view ?c (contents (database s))"
    using truncate_batch [OF wf, of ?c b] fold by simp
  show thesis
  proof (cases "?c = lo")
    case True
    with eq have "truncateOldest R n s = (Inr 0, s)" by simp
    from True this show thesis by (rule nothing)
  next
    case c: False
    show thesis
    proof (cases ok)
      case True
      have "contents ?d = truncate_view ?c (contents (database s))"
        by (simp add: CompactRange CompactRange_fold Write_ok [OF w [unfolded Eq_TrueI [OF True]]] all)
      with c True eq deleted show thesis by simp
    next
      case False
      from c False eq have "truncateOldest R n s = (Inr 0, set_database d s)" by simp
      from failed [OF this Write_failed [OF w [unfolded Eq_FalseI [OF False]]]]
      show thesis using w False by simp
    qed
  qed
qed

lemma truncateOldest_wf:
  assumes wf: "store_wf (contents (database s))"
  shows "store_wf (contents (database (snd (truncateOldest R n s))))"
proof (cases "rd_mInitialized s \<and> n \<noteq> 0 \<and> contents (database s) StreamsCF \<noteq> Map.empty")
  case True
  then obtain lo hi where r: "registry_range (contents (database s)) lo hi"
    using registry_range_exists [OF wf] by blast
  from True show ?thesis
    by (cases rule: truncateOldest_range [OF wf _ _ r, of n]) (auto simp: wf store_wf_truncate_view)
next
  case False
  then show ?thesis using wf truncateOldest_none [of s n]
    by (cases "rd_mInitialized s") (auto simp: truncateOldest_def)
qed

text \<open>Whatever it reports, the operation either changes nothing or drops exactly what is older than
  the cutoff; it never raises the global sequence number or touches the default family.\<close>

lemma truncateOldest_reported:
  assumes wf: "store_wf (contents (database s))" and s: "rd_mInitialized s" "n \<noteq> 0"
    and r: "registry_range (contents (database s)) lo hi"
    and nowrap: "unat lo + unat n < 2 ^ 64" "unat hi + 1 < 2 ^ 64"
    and t: "truncateOldest R n s = (Inr p, s')"
  shows "p = 0 \<and> contents (database s') = contents (database s) \<or>
         unat p = min (unat n) (unat hi + 1 - unat lo) \<and>
         contents (database s') = truncate_view (lo + p) (contents (database s))"
proof -
  let ?c = "truncation_cutoff lo hi n"
  have c: "unat ?c = min (unat lo + unat n) (unat hi + 1)" by (rule truncation_cutoff_unat [OF nowrap])
  have le: "unat lo \<le> unat hi" using registry_range_le [OF wf r] by (simp add: word_le_nat_alt)
  then have "lo \<le> ?c" using c by (simp add: word_le_nat_alt)
  then have p: "unat (?c - lo) = min (unat n) (unat hi + 1 - unat lo)"
    using c le by (simp add: unat_sub_if')
  show ?thesis
    by (cases rule: truncateOldest_range [OF wf s r]) (use t p in auto)
qed

end

end
