(* ===== verification/Rocks_Properties.thy ===== *)
theory Rocks_Properties
  imports Rocks_Truncate "HOL-Library.Multiset"
begin

text \<open>
  The properties of the RocksDB packet store, each stated for every database that satisfies the laws
  of the locale \<open>rocks_api\<close> and shown at a concrete in-memory store.
\<close>

section \<open>Reachable stores\<close>

text \<open>A handle on a freshly created database, any sequence of the operations that change it, and a
  restart: another open handle on a database with the contents the previous one left.\<close>

inductive store_reachable ::
  "'db rocks \<Rightarrow> (Packet \<Rightarrow> string) \<Rightarrow> ('db \<Rightarrow> view) \<Rightarrow> 'db RocksDatabase \<Rightarrow> bool"
  for R ser contents where
  fresh: "rd_mInitialized s \<Longrightarrow> contents (database s) = (\<lambda>c k. None) \<Longrightarrow>
     store_reachable R ser contents s"
| reopened: "store_reachable R ser contents s \<Longrightarrow> rd_mInitialized s' \<Longrightarrow>
     contents (database s') = contents (database s) \<Longrightarrow> store_reachable R ser contents s'"
| written: "store_reachable R ser contents s \<Longrightarrow>
     store_reachable R ser contents (snd (write_packets R ser xs s))"
| truncated: "store_reachable R ser contents s \<Longrightarrow>
     store_reachable R ser contents (snd (truncateOldest R n s))"
| compacted: "store_reachable R ser contents s \<Longrightarrow>
     store_reachable R ser contents (snd (compact R t s))"
| flushed: "store_reachable R ser contents s \<Longrightarrow> store_reachable R ser contents (flush R s)"

lemma operations_keep_initialized [simp]:
  "rd_mInitialized (snd (write_packets R ser xs s)) = rd_mInitialized s"
  "rd_mInitialized (snd (truncateOldest R n s)) = rd_mInitialized s"
  "rd_mInitialized (snd (compact R t s)) = rd_mInitialized s"
  "rd_mInitialized (flush R s) = rd_mInitialized s"
  by (auto simp: write_packets_def truncateOldest_def compact_def flush_def Let_def
      split: sum.split prod.split)

context rocks_api
begin

lemma compact_contents: "contents (database (snd (compact R t s))) = contents (database s)"
  by (cases "rd_mInitialized s") (simp_all add: compact_def CompactRange)

lemma flush_contents: "contents (database (flush R s)) = contents (database s)"
  by (simp add: flush_def Flush)

lemma store_reachable_wf:
  "store_reachable R ser contents s \<Longrightarrow> rd_mInitialized s \<and> store_wf (contents (database s))"
  by (induction rule: store_reachable.induct)
    (simp_all add: store_wf_empty write_packets_wf truncateOldest_wf compact_contents flush_contents)

lemma stored_le_global:
  assumes wf: "store_wf (contents (database s))" and "rd_mInitialized s" "keyable i"
    and "stored (contents (database s)) i q \<noteq> None"
  shows "\<exists>g. getGlobalSequenceNumber R s = Inr g \<and> q \<le> g"
proof -
  obtain v where v: "contents (database s) PacketsCF (stream_key i @ be64 q) = Some v"
    using assms(4) by (auto simp: stored_def)
  with packets_wfD(3) [OF wf v] \<open>keyable i\<close> obtain r where
    "contents (database s) StreamsCF (stream_key i) = Some r" "q \<le> reg_max r" by auto
  with registry_wfD(3) [OF wf this(1)]
  have "reg_max r \<in> registry_maxes (contents (database s))" by (force simp: registry_maxes_def)
  then have "reg_max r \<le> Max (insert 0 (registry_maxes (contents (database s))))"
    using finite_registry_maxes by (intro Max_ge) auto
  with \<open>q \<le> reg_max r\<close> assms(2) show ?thesis
    by (auto simp: getGlobalSequenceNumber_eq intro: order_trans)
qed

lemma stored_listed:
  assumes wf: "store_wf (contents (database s))" and "rd_mInitialized s" "keyable i"
    and "stored (contents (database s)) i q \<noteq> None"
  shows "\<exists>rs t. queryAvailableStreams R s = Inr rs \<and> (t, canonical i) \<in> set rs"
proof -
  obtain v where v: "contents (database s) PacketsCF (stream_key i @ be64 q) = Some v"
    using assms(4) by (auto simp: stored_def)
  with packets_wfD(3) [OF wf v] \<open>keyable i\<close> obtain r where
    r: "contents (database s) StreamsCF (stream_key i) = Some r" by auto
  have "(reg_last r, canonical i) \<in> set (map (\<lambda>(k, v). (reg_last v,
      projr (fromStreamKey k empty_identifier))) (rdb_Scan R (database s) StreamsCF))"
    unfolding set_available_streams [OF wf] using r \<open>keyable i\<close> by auto
  with queryAvailableStreams_eq [OF wf assms(2)] show ?thesis by blast
qed

lemma available_distinct:
  assumes wf: "store_wf (contents d)"
  shows "distinct (map snd (map (\<lambda>(k, v). (reg_last v, projr (fromStreamKey k empty_identifier)))
           (rdb_Scan R d StreamsCF)))"
proof -
  have keys: "\<exists>i. keyable i \<and> k = stream_key i" if "k \<in> fst ` set (rdb_Scan R d StreamsCF)" for k
    using that registry_wfD(1) [OF wf] by (auto simp: Scan_set)
  have "inj_on (\<lambda>k. projr (fromStreamKey k empty_identifier)) (fst ` set (rdb_Scan R d StreamsCF))"
    by (rule inj_onI) (metis fromStreamKey_stream_key keys stream_key_eq_iff sum.sel(2))
  then have "distinct (map (\<lambda>k. projr (fromStreamKey k empty_identifier))
      (map fst (rdb_Scan R d StreamsCF)))"
    by (simp add: distinct_map [of _ "map fst _"] key_sorted_distinct Scan_sorted del: map_map)
  then show ?thesis by (simp add: comp_def case_prod_beta)
qed

end

section \<open>A concrete store\<close>

definition demo_id :: StreamIdentifier where
  "demo_id = makeIdentifier ''UU'' ''SRU'' ''HHZ'' ''01''"

definition demo_packet :: "u64 \<Rightarrow> Packet" where
  "demo_packet q = set_sequence_number
     (empty_packet\<lparr>pk_stream_identifier := Some demo_id, pk_data := Some ''abc''\<rparr>) q"

definition demo_ser :: "Packet \<Rightarrow> string" where
  "demo_ser p = be64 (sequence_number p) @ field_or [] (pk_data p)"

definition demo_handle :: "mem_db \<Rightarrow> mem_db RocksDatabase" where
  "demo_handle d = \<lparr>rd_mOptions = RocksDatabaseOptions_init, rd_mDatabase = Some d,
     rd_mDisableWriteAheadLog = False, rd_mInitialized = True\<rparr>"

definition demo_store :: "mem_db RocksDatabase" where
  "demo_store = snd (write_packets mem_rocks demo_ser
     [(100, demo_packet 3), (90, empty_packet), (200, demo_packet 5)] (demo_handle mem_empty))"

lemma keyable_demo_id [simp]: "keyable demo_id"
  by (simp add: demo_id_def keyable_example)

lemma demo_packet_simps [simp]:
  "stream_identifier (demo_packet q) = demo_id" "sequence_number (demo_packet q) = q"
  by (simp_all add: demo_packet_def stream_identifier_def set_sequence_number_def sequence_number_def)

lemma demo_handle_simps [simp]: "rd_mInitialized (demo_handle d)" "database (demo_handle d) = d"
  by (simp_all add: demo_handle_def database_def)

lemma empty_packet_unkeyable [simp]: "\<not> keyable (stream_identifier empty_packet)"
  by (simp add: stream_identifier_def empty_packet_def empty_identifier_def keyable_def
      components_def network_def component_ok_def)

lemma mem_empty_contents [simp]: "mem_contents mem_empty = (\<lambda>c k. None)"
  by (simp add: mem_contents_def mem_empty_def fun_eq_iff)

lemma demo_reachable: "store_reachable mem_rocks demo_ser mem_contents demo_store"
  unfolding demo_store_def by (intro written fresh) simp_all

lemmas demo_wf = conjunct2 [OF mem.store_reachable_wf [OF demo_reachable]]
lemmas demo_initialized = conjunct1 [OF mem.store_reachable_wf [OF demo_reachable]]

lemma mem_empty_accepts:
  "write_status mem_rocks ser xs (demo_handle mem_empty)"
  by (simp add: write_status_def mem_rocks_def mem_empty_def)

lemma demo_batch:
  obtains b where "write_batch mem_rocks demo_ser mem_empty
      [(100, demo_packet 3), (90, empty_packet), (200, demo_packet 5)] = ([empty_packet], b)"
    "mem_contents (database demo_store) = apply_batch b (mem_contents mem_empty)"
proof -
  let ?xs = "[(100, demo_packet 3), (90, empty_packet), (200, demo_packet 5)]"
  from mem.write_packets_ok [of "demo_handle mem_empty" ?xs demo_ser] mem_empty_accepts obtain n b d'
    where w: "write_packets mem_rocks demo_ser ?xs (demo_handle mem_empty) =
        (Inr n, set_database d' (demo_handle mem_empty))"
      "write_batch mem_rocks demo_ser mem_empty ?xs = (n, b)"
      "mem_contents d' = apply_batch b (mem_contents mem_empty)"
    by (metis demo_handle_simps list.distinct(1))
  have "n = [empty_packet]"
    using mem.write_contents(1) [OF w(2)] by (simp add: data_keyable_def)
  moreover have "mem_contents (database demo_store) = apply_batch b (mem_contents mem_empty)"
    by (simp add: demo_store_def w(1,3))
  ultimately show thesis using that w(2) by simp
qed

lemma demo_stored:
  "stored (mem_contents (database demo_store)) demo_id q =
     (if q = 3 then Some (100, demo_ser (demo_packet 3))
      else if q = 5 then Some (200, demo_ser (demo_packet 5)) else None)"
proof -
  obtain b where w: "write_batch mem_rocks demo_ser mem_empty
      [(100, demo_packet 3), (90, empty_packet), (200, demo_packet 5)] = ([empty_packet], b)"
    "mem_contents (database demo_store) = apply_batch b (mem_contents mem_empty)" by (rule demo_batch)
  moreover have "stored (mem_contents mem_empty) demo_id q = None" by (simp add: stored_def)
  ultimately show ?thesis
    using mem.stored_write_batch [OF w(1) keyable_demo_id, of q] by (auto simp: latest_def)
qed

lemma demo_registry:
  "mem_contents (database demo_store) StreamsCF k =
     (if k = stream_key demo_id then Some (registry_value 3 5 (smax64 100 200)) else None)"
proof -
  obtain b where w: "write_batch mem_rocks demo_ser mem_empty
      [(100, demo_packet 3), (90, empty_packet), (200, demo_packet 5)] = ([empty_packet], b)"
    "mem_contents (database demo_store) = apply_batch b (mem_contents mem_empty)" by (rule demo_batch)
  show ?thesis
    unfolding w(2) mem.write_contents(3) [OF w(1)]
    by (simp add: aggregate_of_def data_keyable_def data_stream_def data_seq_def merged_value_def)
qed

lemma demo_range: "registry_range (mem_contents (database demo_store)) 3 5"
  by (simp add: registry_range_def demo_registry)

lemma mem_fails_apply: "mem_fails (mem_apply x d) = mem_fails d"
  by (cases x) simp_all

lemma mem_fails_fold: "mem_fails (fold mem_apply b d) = mem_fails d"
  by (induction b arbitrary: d) (simp_all add: mem_fails_apply)

lemma demo_accepts: "fst (rdb_Write mem_rocks (database demo_store) w b)"
proof -
  have "\<not> mem_fails (database demo_store)"
    by (simp add: demo_store_def write_packets_def mem_rocks_def mem_empty_def mem_fails_fold
        split: prod.split)
  then show ?thesis by (simp add: mem_rocks_def)
qed

section \<open>Properties\<close>

text \<open>C1.  The store invariant.  Whatever writes, truncations, compactions, flushes and restarts
  have happened to a fresh database, every registry key is the key of a stream, every registry entry
  is a non-empty interval, every packet is keyed by a stream and a number inside the interval of its
  stream, and the handle stays open.\<close>

theorem reachable_store_invariant:
  assumes "rocks_api R contents" "store_reachable R ser contents s"
  shows "store_wf (contents (database s)) \<and> rd_mInitialized s"
  using rocks_api.store_reachable_wf [OF assms] by simp

theorem reachable_store_invariant_witness:
  "store_wf (mem_contents (database demo_store)) \<and> rd_mInitialized demo_store"
  by (rule reachable_store_invariant [OF mem.rocks_api_axioms demo_reachable])

text \<open>C3.  Writing.  When the database accepts the batch, the packets returned as not written are
  exactly those whose identifier has no key, in order, and the stored packets are updated by the
  batch: a stream and number is bound to the receipt time and serialization of the last packet of
  the batch that has them, and everything else is kept.\<close>

theorem write_stores_batch:
  assumes "rocks_api R contents" "rd_mInitialized s" "write_status R ser xs s"
  shows "fst (write_packets R ser xs s) =
           Inr (filter (\<lambda>p. \<not> keyable (stream_identifier p)) (map snd xs)) \<and>
         (\<forall>i q. keyable i \<longrightarrow>
           stored (contents (database (snd (write_packets R ser xs s)))) i q =
             (case latest xs i q of Some (t, p) \<Rightarrow> Some (t, ser p)
              | None \<Rightarrow> stored (contents (database s)) i q))"
proof (cases "xs = []")
  case True
  with assms(2) show ?thesis by (simp add: write_packets_def latest_def)
next
  case False
  from rocks_api.write_packets_ok [OF assms(1,2) False assms(3)] obtain n b d' where
    w: "write_packets R ser xs s = (Inr n, set_database d' s)"
      "write_batch R ser (database s) xs = (n, b)"
      "contents d' = apply_batch b (contents (database s))" by blast
  have "n = filter (\<lambda>p. \<not> keyable (stream_identifier p)) (map snd xs)"
    using rocks_api.write_contents(1) [OF assms(1) w(2)]
    by (simp add: filter_map comp_def data_keyable_def)
  with w rocks_api.stored_write_batch [OF assms(1) w(2)] show ?thesis
    by (auto split: option.split)
qed

theorem write_stores_batch_witness:
  "fst (write_packets mem_rocks demo_ser [(7, demo_packet 1), (9, empty_packet), (8, demo_packet 1)]
     (demo_handle mem_empty)) = Inr [empty_packet] \<and>
   stored (mem_contents (database (snd (write_packets mem_rocks demo_ser
     [(7, demo_packet 1), (9, empty_packet), (8, demo_packet 1)] (demo_handle mem_empty)))))
     demo_id 1 = Some (8, demo_ser (demo_packet 1))"
  using write_stores_batch [OF mem.rocks_api_axioms _ mem_empty_accepts, of demo_ser
      "[(7, demo_packet 1), (9, empty_packet), (8, demo_packet 1)]"]
  by (simp add: latest_def)

text \<open>A write is atomic: when the database rejects the batch every packet is returned as not
  written and the contents are unchanged.\<close>

lemma write_failure_atomic:
  assumes "rocks_api R contents" "rd_mInitialized s" "\<not> write_status R ser xs s" "xs \<noteq> []"
  shows "fst (write_packets R ser xs s) = Inr (map snd xs) \<and>
         contents (database (snd (write_packets R ser xs s))) = contents (database s)"
proof -
  from rocks_api.write_packets_failed [OF assms(1,2,4,3)] obtain d' where
    "write_packets R ser xs s = (Inr (map snd xs), set_database d' s)"
    "contents d' = contents (database s)" by blast
  then show ?thesis by simp
qed


text \<open>C25.  The order in which the \<open>unordered_map\<close> of stream aggregates is iterated does not matter:
  every order of the registry updates leaves the same contents.\<close>

theorem registry_order_irrelevant:
  assumes "rocks_api R contents" "mset m' = mset m"
    and "foldl (write_packet ser) ([], [], []) xs = (n, b, m)"
  shows "apply_batch (b @ map (merge_registry R d) m') (contents d) =
         apply_batch (snd (write_batch R ser d xs)) (contents d)"
proof -
  have "m = foldl aggregate_data [] (filter data_keyable xs)" using assms(3) by (simp add: write_loop)
  then have dist: "distinct (map fst m)" using distinct_aggregates [of "[]"] by simp
  have "mset (map fst m') = mset (map fst m)" using assms(2) by simp
  with dist have dist': "distinct (map fst m')" by (metis mset_eq_imp_distinct_iff)
  have "set m' = set m" using assms(2) by (metis set_mset_mset)
  let ?f = "\<lambda>x. (fst x, merged_value (contents d StreamsCF (fst x)) (snd x))"
  have map_eq: "map_of (rev (map ?f m')) = map_of (rev (map ?f m))"
    using dist dist' \<open>set m' = set m\<close>
    by (subst map_of_inject_set) (simp_all add: rev_map comp_def distinct_map)
  have "apply_batch (map (merge_registry R d) m') w = apply_batch (map (merge_registry R d) m) w" for w
    unfolding rocks_api.merge_registry_eq [OF assms(1)] apply_puts map_eq ..
  then show ?thesis using assms(3) by (simp add: write_batch_def)
qed

theorem registry_order_irrelevant_witness:
  "let (n, b, m) = foldl (write_packet demo_ser) ([], [], []) [(1, demo_packet 4),
         (2, set_sequence_number (empty_packet\<lparr>pk_stream_identifier :=
            Some (makeIdentifier ''UU'' ''CVRU'' ''HHZ'' ''01'')\<rparr>) 5)]
   in length m = 2 \<and>
      apply_batch (b @ map (merge_registry mem_rocks mem_empty) (rev m)) (\<lambda>c k. None) =
      apply_batch (snd (write_batch mem_rocks demo_ser mem_empty [(1, demo_packet 4),
         (2, set_sequence_number (empty_packet\<lparr>pk_stream_identifier :=
            Some (makeIdentifier ''UU'' ''CVRU'' ''HHZ'' ''01'')\<rparr>) 5)])) (\<lambda>c k. None)"
proof -
  let ?j = "makeIdentifier ''UU'' ''CVRU'' ''HHZ'' ''01''"
  let ?p = "set_sequence_number (empty_packet\<lparr>pk_stream_identifier := Some ?j\<rparr>) 5"
  obtain n b m where f: "foldl (write_packet demo_ser) ([], [], []) [(1, demo_packet 4), (2, ?p)] = (n, b, m)"
    by (metis prod_cases3)
  have j: "keyable ?j" by (simp add: keyable_makeIdentifier component_ok_def)
  have p: "stream_identifier ?p = ?j"
    by (simp add: stream_identifier_def set_sequence_number_def)
  have "stream_key demo_id \<noteq> stream_key ?j"
    unfolding stream_key_eq_iff [OF keyable_demo_id j]
    by (simp add: demo_id_def canonical_def identifier_simps)
  moreover have "m = foldl aggregate_data [] (filter data_keyable [(1, demo_packet 4), (2, ?p)])"
    using f [unfolded write_loop] by blast
  ultimately have "length m = 2"
    using j p by (simp add: data_keyable_def aggregate_data_def aggregate_packet_def data_stream_def)
  then show ?thesis
    using registry_order_irrelevant [OF mem.rocks_api_axioms, where m' = "rev m" and d = mem_empty, OF _ f] f
    by simp
qed

text \<open>The global sequence number after an accepted write is the maximum of the number before
  and the numbers of the packets written; packets without a key do not count.\<close>

lemma write_advances_global_number:
  assumes "rocks_api R contents" "store_wf (contents (database s))" "rd_mInitialized s"
    and "write_status R ser xs s" "getGlobalSequenceNumber R s = Inr g"
  shows "getGlobalSequenceNumber R (snd (write_packets R ser xs s)) =
         Inr (Max (insert g (sequence_number ` {p \<in> snd ` set xs. keyable (stream_identifier p)})))"
proof (cases "xs = []")
  case True
  with assms(3,5) show ?thesis by (simp add: write_packets_def)
next
  case False
  from rocks_api.write_packets_ok [OF assms(1,3) False assms(4)] obtain n b d' where
    w: "write_packets R ser xs s = (Inr n, set_database d' s)"
      "write_batch R ser (database s) xs = (n, b)"
      "contents d' = apply_batch b (contents (database s))" by blast
  have "data_seq ` set (filter data_keyable xs) =
      sequence_number ` {p \<in> snd ` set xs. keyable (stream_identifier p)}"
    by (auto simp: data_seq_def data_keyable_def image_iff)
  with rocks_api.registry_maxes_write [OF assms(1) w(2,3) assms(2)] assms(3,5)
  show ?thesis by (simp add: w(1) rocks_api.getGlobalSequenceNumber_eq [OF assms(1)])
qed


text \<open>C18.  The numbers a restarted broker will hand out are fresh: in every reachable store no stored
  packet has a number above the global sequence number, and every stored packet's stream is listed
  as available.\<close>

theorem stored_packets_below_global_number:
  assumes "rocks_api R contents" "store_reachable R ser contents s"
    and "keyable i" "stored (contents (database s)) i q \<noteq> None"
  shows "(\<exists>g. getGlobalSequenceNumber R s = Inr g \<and> q \<le> g) \<and>
         (\<exists>rs t. queryAvailableStreams R s = Inr rs \<and> (t, canonical i) \<in> set rs)"
  using rocks_api.store_reachable_wf [OF assms(1,2)] rocks_api.stored_le_global [OF assms(1)]
    rocks_api.stored_listed [OF assms(1)] assms(3,4) by blast

theorem stored_packets_below_global_number_witness:
  "(\<exists>g. getGlobalSequenceNumber mem_rocks demo_store = Inr g \<and> 5 \<le> g) \<and>
   (\<exists>rs t. queryAvailableStreams mem_rocks demo_store = Inr rs \<and> (t, canonical demo_id) \<in> set rs)"
  by (rule stored_packets_below_global_number [OF mem.rocks_api_axioms demo_reachable])
    (simp_all add: demo_stored)

text \<open>C5.  A query for one stream from a number returns exactly its stored packets with that number
  or a larger one, each once and in ascending order of sequence number.\<close>

theorem query_exact:
  assumes "rocks_api R contents" "store_wf (contents (database s))" "rd_mInitialized s" "keyable i"
  shows "\<exists>rs. query R [(i, q)] s = Inr rs \<and>
           sorted_wrt (\<lambda>x y. qr_sequenceNumber x < qr_sequenceNumber y) rs \<and>
           set rs = {\<lparr>qr_packet = p, qr_receivedAt = t, qr_sequenceNumber = n\<rparr> | n t p.
                       q \<le> n \<and> stored (contents (database s)) i n = Some (t, p)}"
  using rocks_api.query_eq [OF assms(1-3), of "[(i, q)]"] rocks_api.sorted_responses [OF assms(1,2,4)]
    rocks_api.set_responses [OF assms(1,2,4)] assms(4) by simp

theorem query_exact_witness:
  "query mem_rocks [(demo_id, 4)] demo_store =
     Inr [\<lparr>qr_packet = demo_ser (demo_packet 5), qr_receivedAt = 200, qr_sequenceNumber = 5\<rparr>]"
proof -
  let ?r = "\<lparr>qr_packet = demo_ser (demo_packet 5), qr_receivedAt = 200, qr_sequenceNumber = 5\<rparr>"
  obtain rs where rs: "query mem_rocks [(demo_id, 4)] demo_store = Inr rs"
      "sorted_wrt (\<lambda>x y. qr_sequenceNumber x < qr_sequenceNumber y) rs"
      "set rs = {\<lparr>qr_packet = p, qr_receivedAt = t, qr_sequenceNumber = n\<rparr> | n t p.
          4 \<le> n \<and> stored (mem_contents (database demo_store)) demo_id n = Some (t, p)}"
    using query_exact [OF mem.rocks_api_axioms demo_wf demo_initialized keyable_demo_id, of 4] by blast
  from rs(3) have "set rs = {?r}" by (auto simp: demo_stored split: if_splits)
  with rs(2) have "rs = [?r]"
    by (cases rs; cases "tl rs") auto
  with rs(1) show ?thesis by simp
qed

text \<open>A query for several streams concatenates the answers for each in request order; a stream
  whose identifier has no key contributes nothing and does not fail the query.\<close>

lemma query_streams_concat:
  assumes "rocks_api R contents" "store_wf (contents (database s))" "rd_mInitialized s"
  shows "query R qs s = Inr (concat (map (\<lambda>x. projr (query R [x] s)) qs)) \<and>
         (\<not> keyable i \<longrightarrow> query R [(i, q)] s = Inr [])"
proof -
  have "(\<lambda>x. projr (query R [x] s)) = (\<lambda>(i, q). if keyable i then map response_of
      (rdb_Seek R (database s) PacketsCF (stream_key i @ be64 q)) else [])"
    by (auto simp: fun_eq_iff rocks_api.query_eq [OF assms])
  then show ?thesis by (simp add: rocks_api.query_eq [OF assms])
qed

text \<open>The list of available streams has every registered stream once, under its canonical
  identifier and with the last receipt time of its registry entry, and nothing else.\<close>

lemma available_streams_exact:
  assumes "rocks_api R contents" "store_wf (contents (database s))" "rd_mInitialized s"
  shows "\<exists>rs. queryAvailableStreams R s = Inr rs \<and> distinct (map snd rs) \<and>
           set rs = {(getBigEndian64 (drop 16 v), canonical i) | i v.
                       keyable i \<and> contents (database s) StreamsCF (stream_key i) = Some v}"
  using rocks_api.queryAvailableStreams_eq [OF assms] rocks_api.set_available_streams [OF assms(1,2)]
    rocks_api.available_distinct [OF assms(1,2)] by blast


text \<open>Before a database is open every operation that needs one fails with the same error and
  changes nothing; flushing is skipped and the size is zero.\<close>

lemma uninitialized_store_guarded:
  assumes "\<not> rd_mInitialized s"
  defines "e \<equiv> RuntimeError ''RocksDatabase is not initialized''"
  shows "write_packets R ser xs s = (Inl e, s) \<and> truncateOldest R n s = (Inl e, s) \<and>
         compact R t s = (Inl e, s) \<and> query R qs s = Inl e \<and> queryAvailableStreams R s = Inl e \<and>
         getGlobalSequenceNumber R s = Inl e \<and> flush R s = s \<and> getSizeInBytes R s = Inr 0"
  using assms(1) by (simp add: e_def write_packets_def truncateOldest_def compact_def query_def
      queryAvailableStreams_def getGlobalSequenceNumber_def flush_def getSizeInBytes_def)

text \<open>Compaction drops nothing: whatever the time it is given, the packets and the registry are
  what they were, so a packet received before that time is still there.\<close>

lemma compact_keeps_everything:
  assumes "rocks_api R contents" "rd_mInitialized s"
  shows "fst (compact R dropBefore s) = Inr () \<and>
         contents (database (snd (compact R dropBefore s))) = contents (database s)"
proof
  show "fst (compact R dropBefore s) = Inr ()" using assms(2) by (simp add: compact_def)
qed (rule rocks_api.compact_contents [OF assms(1)])


section \<open>Properties of truncation\<close>

text \<open>C4.  Truncation is exact.  While the numbers stay clear of the end of the 64-bit range and the
  database accepts writes, truncating \<open>n\<close> numbers of a store whose registry spans \<open>[lo, hi]\<close>
  reports \<open>min n (hi + 1 - lo)\<close>, removes exactly the stored packets numbered below \<open>lo\<close> plus that,
  and keeps every other packet as it was.  What it reports is the span of numbers it purged, not the
  number of packets purged, as the headers say: numbers no packet has are counted too.\<close>

theorem truncate_removes_oldest:
  assumes "rocks_api R contents" "store_wf (contents (database s))" "rd_mInitialized s" "n \<noteq> 0"
    and "registry_range (contents (database s)) lo hi"
    and "unat lo + unat n < 2 ^ 64" "unat hi + 1 < 2 ^ 64"
    and "\<And>b. fst (rdb_Write R (database s) (rd_mDisableWriteAheadLog s) b)"
  shows "\<exists>p s'. truncateOldest R n s = (Inr p, s') \<and>
           unat p = min (unat n) (unat hi + 1 - unat lo) \<and>
           (\<forall>i q. keyable i \<longrightarrow> stored (contents (database s')) i q =
              (if q < lo + p then None else stored (contents (database s)) i q))"
proof -
  have c: "unat (truncation_cutoff lo hi n) = min (unat lo + unat n) (unat hi + 1)"
    by (rule truncation_cutoff_unat [OF assms(6,7)])
  have "unat lo \<le> unat hi"
    using registry_range_le [OF assms(2,5)] by (simp add: word_le_nat_alt)
  moreover have "unat n \<noteq> 0" using \<open>n \<noteq> 0\<close> unat_gt_0 [of n] by simp
  ultimately have "truncation_cutoff lo hi n \<noteq> lo" using c by auto
  then obtain p s' where t: "truncateOldest R n s = (Inr p, s')" "p \<noteq> 0"
  proof (cases rule: rocks_api.truncateOldest_range [OF assms(1-5)])
    case (2 d b)
    with assms(8) [of b] show ?thesis by simp
  next
    case (3 d)
    with that show ?thesis by (metis right_minus_eq)
  qed simp
  with rocks_api.truncateOldest_reported [OF assms(1-7) t(1)] show ?thesis
    by (auto simp: stored_truncate_view)
qed

theorem truncate_removes_oldest_witness:
  "\<exists>p s'. truncateOldest mem_rocks 2 demo_store = (Inr p, s') \<and> unat p = 2 \<and>
     stored (mem_contents (database demo_store)) demo_id 4 = None \<and>
     stored (mem_contents (database s')) demo_id 3 = None \<and>
     stored (mem_contents (database s')) demo_id 5 = Some (200, demo_ser (demo_packet 5))"
proof -
  obtain p s' where t: "truncateOldest mem_rocks 2 demo_store = (Inr p, s')"
      "unat p = min (unat (2 :: u64)) (unat (5 :: u64) + 1 - unat (3 :: u64))"
      "\<forall>i q. keyable i \<longrightarrow> stored (mem_contents (database s')) i q =
         (if q < 3 + p then None else stored (mem_contents (database demo_store)) i q)"
    using truncate_removes_oldest [OF mem.rocks_api_axioms demo_wf demo_initialized _ demo_range
        _ _ demo_accepts, of 2] by auto
  from t(2) have "unat p = unat (2 :: u64)" by simp
  then have "p = 2" by (simp only: word_unat_eq_iff)
  with t show ?thesis by (auto simp: demo_stored)
qed

text \<open>Whatever the database answers, a truncation that reports zero has changed nothing, and
  one that reports \<open>p > 0\<close> leaves a registry in which every stream starts at the cutoff or
  later and no stream without packets to keep is registered.\<close>

lemma truncate_report_truthful:
  assumes "rocks_api R contents" "store_wf (contents (database s))" "rd_mInitialized s" "n \<noteq> 0"
    and "registry_range (contents (database s)) lo hi"
    and "unat lo + unat n < 2 ^ 64" "unat hi + 1 < 2 ^ 64"
    and "truncateOldest R n s = (Inr p, s')"
  shows "if p = 0 then contents (database s') = contents (database s)
         else \<forall>k v. contents (database s') StreamsCF k = Some v \<longrightarrow>
                lo + p \<le> getBigEndian64 v \<and> (\<exists>u. contents (database s) StreamsCF k = Some u \<and>
                  getBigEndian64 (drop 8 v) = getBigEndian64 (drop 8 u) \<and>
                  lo + p \<le> getBigEndian64 (drop 8 u))"
proof (cases "p = 0")
  case True
  have "unat n \<noteq> 0" using \<open>n \<noteq> 0\<close> unat_gt_0 [of n] by simp
  moreover have "unat lo \<le> unat hi"
    using registry_range_le [OF assms(2,5)] by (simp add: word_le_nat_alt)
  ultimately show ?thesis
    using True rocks_api.truncateOldest_reported [OF assms] by auto
next
  case False
  with rocks_api.truncateOldest_reported [OF assms]
  have "contents (database s') = truncate_view (lo + p) (contents (database s))" by simp
  moreover have "lo + p \<le> reg_max v" if "contents (database s) StreamsCF k = Some v"
      "lo + p \<le> reg_min v" for k v
    using that registry_wfD(4) [OF assms(2)] by (meson order_trans)
  ultimately show ?thesis
    using False by (auto simp: truncate_view_def truncated_entry_def split: option.splits if_splits)
qed


text \<open>C30.  The 64-bit wrap of the cutoff.  When the oldest number plus the number to purge passes the
  end of the 64-bit range, the operation reports that it purged everything asked for while it has
  removed nothing.\<close>

theorem truncate_wraps_without_deleting:
  assumes "rocks_api R contents" "store_wf (contents (database s))" "rd_mInitialized s" "n \<noteq> 0"
    and "registry_range (contents (database s)) lo hi"
    and "2 ^ 64 \<le> unat lo + unat n" "hi \<noteq> - 1"
    and "\<And>b. fst (rdb_Write R (database s) (rd_mDisableWriteAheadLog s) b)"
  shows "fst (truncateOldest R n s) = Inr n \<and>
         contents (database (snd (truncateOldest R n s))) = contents (database s)"
proof -
  note c = truncation_cutoff_wrap [OF registry_range_le [OF assms(2,5)] assms(7,6)]
  have keep: "truncate_view (lo + n) (contents (database s)) = contents (database s)"
    by (rule truncate_view_below [OF assms(2,5)]) (use c(2) in simp)
  show ?thesis
  proof (cases rule: rocks_api.truncateOldest_range [OF assms(1-5)])
    case 1
    with c \<open>n \<noteq> 0\<close> show ?thesis by simp
  next
    case (2 d b)
    with assms(8) [of b] show ?thesis by simp
  next
    case (3 d)
    with c(1) keep show ?thesis by simp
  qed
qed

theorem truncate_wraps_without_deleting_witness:
  "fst (truncateOldest mem_rocks (- 1) demo_store) = Inr (- 1) \<and>
   mem_contents (database (snd (truncateOldest mem_rocks (- 1) demo_store))) =
     mem_contents (database demo_store)"
  by (rule truncate_wraps_without_deleting [OF mem.rocks_api_axioms demo_wf demo_initialized _
        demo_range _ _ demo_accepts]) (simp_all add: unsigned_minus_1_eq_mask mask_eq_exp_minus_1)

section \<open>Construction\<close>

text \<open>A file system that is the list of its paths, with a database that opens empty.\<close>

definition demo_env :: "(string list, mem_db) open_env" where
  "demo_env = \<lparr>path_parent = (\<lambda>p. None), path_exists = (\<lambda>disk p. p \<in> set disk),
     create_directories = (\<lambda>disk p. (Inr True, p # disk)), rdb_DestroyDB = (\<lambda>disk p. remove1 p disk),
     rdb_Open = (\<lambda>disk options p cfs. (Some mem_empty, p # disk))\<rparr>"

text \<open>Construction fails without a database directory.  Otherwise a handle that is returned keeps
  the options, is initialized exactly when \<open>DB::Open\<close> gave a database, and then writes with the
  write-ahead log exactly when the options enable it; \<open>DB::Open\<close> failing is not an error, it leaves
  an uninitialized handle.\<close>

lemma construct_store:
  "(\<not> hasDatabaseDirectory opts \<longrightarrow> RocksDatabase_construct E opts disk =
      (Inl (InvalidArgument ''Database not set''), disk)) \<and>
   (\<forall>s disk'. RocksDatabase_construct E opts disk = (Inr s, disk') \<longrightarrow>
      rd_mOptions s = opts \<and> rd_mInitialized s = (rd_mDatabase s \<noteq> None) \<and>
      (rd_mInitialized s \<longrightarrow> rd_mDisableWriteAheadLog s = (\<not> mEnableWriteAheadLog opts)))"
proof (intro conjI allI impI)
  show "\<not> hasDatabaseDirectory opts \<Longrightarrow> RocksDatabase_construct E opts disk =
      (Inl (InvalidArgument ''Database not set''), disk)"
    by (simp add: RocksDatabase_construct_def)
next
  fix s disk' assume c: "RocksDatabase_construct E opts disk = (Inr s, disk')"
  then show "rd_mOptions s = opts" "rd_mInitialized s \<Longrightarrow>
      rd_mDisableWriteAheadLog s = (\<not> mEnableWriteAheadLog opts)"
    by (auto simp: RocksDatabase_construct_def open_database_def RocksDatabase_init_def
        Let_def split: if_splits sum.splits option.splits prod.splits)
  from construct_handle [OF c] show "rd_mInitialized s = (rd_mDatabase s \<noteq> None)"
    by (simp add: handle_ok_def)
qed

end
