(* ===== verification/Data_Packet_Store.thy ===== *)
theory Data_Packet_Store
  imports Rocks_Properties
begin

text \<open>
  \<open>src/dataPacketStore.cpp\<close>: the abstract packet store the broker works with.  Its virtual functions
  are the record \<open>IDataPacketStore\<close>, the one-off calls it implements itself are definitions over that
  record, and what a client may rely on is the locale \<open>data_store\<close>.  The RocksDB store is one such
  store: the record \<open>RocksStore\<close> collects its functions and a sublocale derives the contract.
\<close>

section \<open>The interface and the one-off calls\<close>

record 's IDataPacketStore =
  st_getGlobalSequenceNumber :: "'s \<Rightarrow> u64 result"
  st_write :: "(i64 \<times> Packet) list \<Rightarrow> 's \<Rightarrow> Packet list result \<times> 's"
  st_compact :: "i64 \<Rightarrow> 's \<Rightarrow> unit result \<times> 's"
  st_flush :: "'s \<Rightarrow> 's"
  st_getSizeInBytes :: "'s \<Rightarrow> u64 result"
  st_truncateOldest :: "u64 \<Rightarrow> 's \<Rightarrow> u64 result \<times> 's"
  st_query :: "(StreamIdentifier \<times> u64) list \<Rightarrow> 's \<Rightarrow> QueryResponse list result"
  st_queryAvailableStreams :: "'s \<Rightarrow> (i64 \<times> StreamIdentifier) list result"

text \<open>The flush of a store that does not override it.\<close>

definition default_flush :: "'s \<Rightarrow> 's" where
  "default_flush s = s"

text \<open>\<open>bool write(pair &&)\<close>; the overload for a constant reference copies the pair and calls it.\<close>

definition write_one ::
  "'s IDataPacketStore \<Rightarrow> i64 \<times> Packet \<Rightarrow> 's \<Rightarrow> bool result \<times> 's" where
  "write_one S receiptTimeAndData s =
     (case st_write S [receiptTimeAndData] s of
        (Inl e, s) \<Rightarrow> (Inl e, s)
      | (Inr notWritten, s) \<Rightarrow> (Inr (if notWritten = [] then False else True), s))"

definition write_copy ::
  "'s IDataPacketStore \<Rightarrow> i64 \<times> Packet \<Rightarrow> 's \<Rightarrow> bool result \<times> 's" where
  "write_copy S packet s = (let copy = packet in write_one S copy s)"

definition query_one ::
  "'s IDataPacketStore \<Rightarrow> StreamIdentifier \<times> u64 \<Rightarrow> 's \<Rightarrow> QueryResponse list result" where
  "query_one S identifierAndSequenceNumber s = st_query S [identifierAndSequenceNumber] s"

section \<open>The contract\<close>

text \<open>The store as its clients see it: \<open>lookup\<close> is what is stored for a stream and a number, \<open>span\<close>
  bounds how much a truncation can still remove.  Numbers are assumed to stay below \<open>2^63\<close>.\<close>

definition sequence_limit :: u64 where "sequence_limit = 2 ^ 63"

definition answers :: "(u64 \<Rightarrow> (i64 \<times> string) option) \<Rightarrow> u64 \<Rightarrow> QueryResponse list \<Rightarrow> bool" where
  "answers f q rs \<longleftrightarrow> sorted_wrt (\<lambda>x y. qr_sequenceNumber x < qr_sequenceNumber y) rs \<and>
     set rs = {\<lparr>qr_packet = p, qr_receivedAt = t, qr_sequenceNumber = n\<rparr> | n t p.
                 q \<le> n \<and> f n = Some (t, p)}"

locale data_store =
  fixes S :: "'s IDataPacketStore"
    and good :: "'s \<Rightarrow> bool"
    and lookup :: "'s \<Rightarrow> StreamIdentifier \<Rightarrow> u64 \<Rightarrow> (i64 \<times> string) option"
    and span :: "'s \<Rightarrow> nat"
    and ser :: "Packet \<Rightarrow> string"
  assumes write_good: "good s \<Longrightarrow> \<forall>x\<in>set xs. sequence_number (snd x) < sequence_limit \<Longrightarrow>
      good (snd (st_write S xs s))"
    and write_result: "good s \<Longrightarrow>
      (fst (st_write S xs s) = Inr (map snd xs) \<and> lookup (snd (st_write S xs s)) = lookup s) \<or>
      (fst (st_write S xs s) = Inr (filter (\<lambda>p. \<not> keyable (stream_identifier p)) (map snd xs)) \<and>
       (\<forall>i q. keyable i \<longrightarrow> lookup (snd (st_write S xs s)) i q =
          (case latest xs i q of Some (t, p) \<Rightarrow> Some (t, ser p) | None \<Rightarrow> lookup s i q)))"
    and truncate: "good s \<Longrightarrow> n < sequence_limit \<Longrightarrow> st_truncateOldest S n s = (r, s') \<Longrightarrow>
      good s' \<and> (\<exists>p. r = Inr p \<and> (if p = 0 then lookup s' = lookup s else span s' < span s)) \<and>
      (\<forall>i q. lookup s' i q = None \<or> lookup s' i q = lookup s i q)"
    and compact: "good s \<Longrightarrow> st_compact S t s = (u, s') \<Longrightarrow>
      u = Inr () \<and> good s' \<and> lookup s' = lookup s \<and> span s' = span s"
    and flush: "good s \<Longrightarrow>
      good (st_flush S s) \<and> lookup (st_flush S s) = lookup s \<and> span (st_flush S s) = span s"
    and query: "good s \<Longrightarrow> keyable i \<Longrightarrow>
      \<exists>rs. st_query S [(i, q)] s = Inr rs \<and> answers (lookup s i) q rs"
    and global: "good s \<Longrightarrow> \<exists>g. st_getGlobalSequenceNumber S s = Inr g \<and> g < sequence_limit \<and>
      (\<forall>i q. keyable i \<and> lookup s i q \<noteq> None \<longrightarrow> q \<le> g)"
begin

text \<open>The one-off write of a packet that can be keyed answers false exactly when it stored it.\<close>

lemma write_one_inverted:
  assumes "good s" "keyable (stream_identifier p)"
  shows "(fst (write_one S (t, p) s) = Inr False \<and>
          lookup (snd (write_one S (t, p) s)) (stream_identifier p) (sequence_number p) =
            Some (t, ser p)) \<or>
         (fst (write_one S (t, p) s) = Inr True \<and> lookup (snd (write_one S (t, p) s)) = lookup s)"
  using write_result [OF assms(1), of "[(t, p)]"] assms(2)
  by (cases "st_write S [(t, p)] s") (auto simp: write_one_def latest_def)

lemma write_one_unkeyable:
  assumes "good s" "\<not> keyable (stream_identifier p)" "keyable i"
  shows "fst (write_one S (t, p) s) = Inr True \<and>
         lookup (snd (write_one S (t, p) s)) i q = lookup s i q"
  using write_result [OF assms(1), of "[(t, p)]"] assms(2,3)
  by (cases "st_write S [(t, p)] s") (auto simp: write_one_def latest_def)

lemma query_one_answers:
  assumes "good s" "keyable i"
  shows "\<exists>rs. query_one S (i, q) s = Inr rs \<and> answers (lookup s i) q rs"
  unfolding query_one_def by (rule query [OF assms])

text \<open>What was just written can be read back.\<close>

lemma write_then_query:
  assumes "good s" "keyable (stream_identifier p)" "sequence_number p < sequence_limit"
    and "fst (write_one S (t, p) s) = Inr False"
  shows "\<exists>rs. query_one S (stream_identifier p, sequence_number p) (snd (write_one S (t, p) s)) = Inr rs \<and>
           rs \<noteq> [] \<and> hd rs = \<lparr>qr_packet = ser p, qr_receivedAt = t,
                              qr_sequenceNumber = sequence_number p\<rparr>"
proof -
  let ?s = "snd (write_one S (t, p) s)" and ?r = "\<lparr>qr_packet = ser p, qr_receivedAt = t,
    qr_sequenceNumber = sequence_number p\<rparr>"
  have "?s = snd (st_write S [(t, p)] s)"
    by (cases "st_write S [(t, p)] s") (auto simp: write_one_def split: sum.split)
  with write_good [OF assms(1), of "[(t, p)]"] assms(3) have good: "good ?s" by simp
  have stored: "lookup ?s (stream_identifier p) (sequence_number p) = Some (t, ser p)"
    using write_one_inverted [OF assms(1,2), of t] assms(4) by auto
  obtain rs where rs: "query_one S (stream_identifier p, sequence_number p) ?s = Inr rs"
      "answers (lookup ?s (stream_identifier p)) (sequence_number p) rs"
    using query_one_answers [OF good assms(2)] by blast
  then have mem: "?r \<in> set rs" using stored by (auto simp: answers_def)
  then obtain r rs' where cons: "rs = r # rs'" by (cases rs) auto
  have "r \<in> set rs" by (simp add: cons)
  then have "sequence_number p \<le> qr_sequenceNumber r"
    using rs(2) unfolding answers_def by auto
  moreover have "qr_sequenceNumber r < sequence_number p" if "?r \<in> set rs'"
    using rs(2) that by (auto simp: answers_def cons)
  ultimately have "r = ?r" using mem by (auto simp: cons)
  with rs(1) cons show ?thesis by simp
qed

end

section \<open>The RocksDB store implements it\<close>

definition RocksStore ::
  "'db rocks \<Rightarrow> (Packet \<Rightarrow> string) \<Rightarrow> 'db RocksDatabase IDataPacketStore" where
  "RocksStore R ser = \<lparr>
     st_getGlobalSequenceNumber = Rocks_Database.getGlobalSequenceNumber R,
     st_write = write_packets R ser,
     st_compact = Rocks_Database.compact R,
     st_flush = Rocks_Database.flush R,
     st_getSizeInBytes = Rocks_Database.getSizeInBytes R,
     st_truncateOldest = Rocks_Database.truncateOldest R,
     st_query = Rocks_Database.query R,
     st_queryAvailableStreams = Rocks_Database.queryAvailableStreams R\<rparr>"

definition view_span :: "view \<Rightarrow> nat \<Rightarrow> bool" where
  "view_span w n \<longleftrightarrow> (if w StreamsCF = Map.empty then n = 0
     else \<exists>lo hi. registry_range w lo hi \<and> n = unat hi + 1 - unat lo)"

definition rocks_span :: "'db rocks \<Rightarrow> 'db RocksDatabase \<Rightarrow> nat" where
  "rocks_span R s = (case snapshot R (database s) of (entries, lo, hi) \<Rightarrow>
     if entries = [] then 0 else unat hi + 1 - unat lo)"

definition rocks_good :: "('db \<Rightarrow> view) \<Rightarrow> 'db RocksDatabase \<Rightarrow> bool" where
  "rocks_good contents s \<longleftrightarrow> rd_mInitialized s \<and> store_wf (contents (database s)) \<and>
     (\<forall>m\<in>registry_maxes (contents (database s)). m < sequence_limit)"

definition rocks_lookup ::
  "('db \<Rightarrow> view) \<Rightarrow> 'db RocksDatabase \<Rightarrow> StreamIdentifier \<Rightarrow> u64 \<Rightarrow> (i64 \<times> string) option" where
  "rocks_lookup contents s i q = (if keyable i then stored (contents (database s)) i q else None)"

lemma registry_range_truncate:
  assumes wf: "store_wf w" and r: "registry_range w lo hi" and r': "registry_range (truncate_view c w) lo' hi'"
    and c: "lo < c"
  shows "c \<le> lo' \<and> hi' \<le> hi"
proof
  obtain k v where v: "truncate_view c w StreamsCF k = Some v" "reg_min v = lo'"
    using r' by (auto simp: registry_range_def)
  then show "c \<le> lo'" by (auto simp: truncate_view_def truncated_entry_def split: option.splits if_splits)
  obtain k v where v: "truncate_view c w StreamsCF k = Some v" "reg_max v = hi'"
    using r' by (auto simp: registry_range_def)
  then obtain u where "w StreamsCF k = Some u" "reg_max u = reg_max v"
    by (auto simp: truncate_view_def truncated_entry_def split: option.splits if_splits)
  with r v(2) show "hi' \<le> hi" unfolding registry_range_def by metis
qed

lemma registry_maxes_truncate:
  assumes "store_wf w"
  shows "registry_maxes (truncate_view c w) \<subseteq> registry_maxes w"
proof
  fix m assume "m \<in> registry_maxes (truncate_view c w)"
  then obtain k v where v: "truncate_view c w StreamsCF k = Some v" "m = reg_max v"
    by (auto simp: registry_maxes_def)
  then obtain u where u: "w StreamsCF k = Some u" "truncated_entry c u = Some v"
    by (auto simp: truncate_view_def split: option.splits)
  then have "reg_max u = reg_max v" by (auto simp: truncated_entry_def split: if_splits)
  with u v registry_wfD(3) [OF assms u(1)] show "m \<in> registry_maxes w"
    unfolding registry_maxes_def by (metis (mono_tags, lifting) mem_Collect_eq order_refl)
qed

lemma registry_range_max:
  "store_wf w \<Longrightarrow> registry_range w lo hi \<Longrightarrow> hi \<in> registry_maxes w"
  using registry_wfD(3) by (force simp: registry_range_def registry_maxes_def)

lemma below_limit: "m < sequence_limit \<longleftrightarrow> unat m < 2 ^ 63"
  by (simp add: sequence_limit_def word_less_nat_alt)

locale rocks_store = rocks_api R contents
  for R :: "'db rocks" and contents :: "'db \<Rightarrow> view" +
  fixes ser :: "Packet \<Rightarrow> string"
begin

lemma rocks_span_eq:
  assumes "store_wf (contents (database s))" "registry_range (contents (database s)) lo hi"
  shows "rocks_span R s = unat hi + 1 - unat lo"
proof -
  have "rdb_Scan R (database s) StreamsCF \<noteq> []"
    using assms(2) Scan_set [of "database s" StreamsCF] by (auto simp: registry_range_def)
  then show ?thesis by (simp add: rocks_span_def snapshot_eq [OF assms])
qed

lemma rocks_span_empty: "contents (database s) StreamsCF = Map.empty \<Longrightarrow> rocks_span R s = 0"
  by (simp add: rocks_span_def snapshot_empty)

lemma rocks_same:
  assumes "contents (database s') = contents (database s)"
  shows "rocks_lookup contents s' = rocks_lookup contents s"
    and "rd_mInitialized s' \<Longrightarrow> rocks_good contents s \<Longrightarrow> rocks_good contents s'"
  by (intro ext, simp add: rocks_lookup_def assms) (simp add: rocks_good_def assms)

lemma rocks_span_same:
  assumes "contents (database s') = contents (database s)" "store_wf (contents (database s))"
  shows "rocks_span R s' = rocks_span R s"
proof (cases "contents (database s) StreamsCF = Map.empty")
  case True
  then show ?thesis using assms(1) by (simp add: rocks_span_empty)
next
  case False
  then obtain lo hi where "registry_range (contents (database s)) lo hi"
    using registry_range_exists [OF assms(2)] by blast
  with rocks_span_eq [of s lo hi] rocks_span_eq [of s' lo hi] assms show ?thesis by simp
qed

lemma rocks_truncate_progress:
  assumes good: "rocks_good contents s" and n: "n < sequence_limit"
    and t: "truncateOldest R n s = (r, s')"
  shows "rocks_good contents s' \<and> (\<exists>p. r = Inr p \<and>
    (if p = 0 then rocks_lookup contents s' = rocks_lookup contents s
     else rocks_span R s' < rocks_span R s)) \<and>
    (\<forall>i q. rocks_lookup contents s' i q = None \<or> rocks_lookup contents s' i q = rocks_lookup contents s i q)"
proof (cases "n = 0 \<or> contents (database s) StreamsCF = Map.empty")
  case True
  with truncateOldest_none [of s n] good t show ?thesis by (auto simp: rocks_good_def)
next
  case False
  let ?w = "contents (database s)"
  from good have wf: "store_wf ?w" and s: "rd_mInitialized s" by (simp_all add: rocks_good_def)
  from registry_range_exists [OF wf] False obtain lo hi where r: "registry_range ?w lo hi" by blast
  have hi: "unat hi < 2 ^ 63"
    using registry_range_max [OF wf r] good unfolding rocks_good_def below_limit by blast
  have le: "unat lo \<le> unat hi" using registry_range_le [OF wf r] by (simp add: word_le_nat_alt)
  have n63: "unat n < 2 ^ 63" using n by (simp add: below_limit)
  have s': "rd_mInitialized s'" using operations_keep_initialized(2) [of R n s] s t by simp
  obtain p where p: "r = Inr p"
    using t False s by (auto simp: truncateOldest_def Let_def split: if_splits prod.splits)
  have "0 < unat n" using False unat_gt_0 [of n] by simp
  with truncateOldest_reported [OF wf s _ r _ _ t [unfolded p]] False hi le n63
  consider (same) "p = 0" "contents (database s') = ?w"
    | (cut) "p \<noteq> 0" "unat p \<le> unat hi + 1 - unat lo" "contents (database s') = truncate_view (lo + p) ?w"
    by (cases "p = 0") auto
  then show ?thesis
  proof cases
    case same
    with rocks_same [OF same(2)] good s' p show ?thesis by simp
  next
    case cut
    have up: "unat (lo + p) = unat lo + unat p"
      using cut(2) hi le by (intro unat_plus_no_wrap) simp
    have "0 < unat p" using cut(1) unat_gt_0 [of p] by simp
    then have "lo < lo + p" using up by (simp add: word_less_nat_alt)
    have good': "rocks_good contents s'"
      using good s' cut(3) registry_maxes_truncate [OF wf, of "lo + p"] store_wf_truncate_view [OF wf]
      by (auto simp: rocks_good_def)
    have "rocks_span R s' < rocks_span R s"
    proof (cases "contents (database s') StreamsCF = Map.empty")
      case True
      then show ?thesis using le by (simp add: rocks_span_empty rocks_span_eq [OF wf r])
    next
      case nonempty: False
      have wf': "store_wf (contents (database s'))" using good' by (simp add: rocks_good_def)
      from registry_range_exists [OF wf' nonempty] obtain lo' hi' where
        r': "registry_range (contents (database s')) lo' hi'" by blast
      from registry_range_truncate [OF wf r r' [unfolded cut(3)] \<open>lo < lo + p\<close>]
      have "unat lo + unat p \<le> unat lo'" "unat hi' \<le> unat hi"
        by (simp_all add: word_le_nat_alt flip: up)
      with \<open>0 < unat p\<close> le show ?thesis by (simp add: rocks_span_eq [OF wf r] rocks_span_eq [OF wf' r'])
    qed
    moreover have "rocks_lookup contents s' i q = None \<or>
        rocks_lookup contents s' i q = rocks_lookup contents s i q" for i q
      by (simp add: rocks_lookup_def cut(3) stored_truncate_view)
    ultimately show ?thesis using good' p cut(1) by simp
  qed
qed

lemma rocks_write_good:
  assumes good: "rocks_good contents s"
    and xs: "\<forall>x\<in>set xs. sequence_number (snd x) < sequence_limit"
  shows "rocks_good contents (snd (write_packets R ser xs s))"
proof -
  from good have wf: "store_wf (contents (database s))" and s: "rd_mInitialized s"
    by (simp_all add: rocks_good_def)
  have "m < sequence_limit"
    if m: "m \<in> registry_maxes (contents (database (snd (write_packets R ser xs s))))" for m
  proof (cases "xs \<noteq> [] \<and> write_status R ser xs s")
    case True
    from write_packets_ok [OF s, of xs ser] True obtain n b d' where
      "write_packets R ser xs s = (Inr n, set_database d' s)"
      "write_batch R ser (database s) xs = (n, b)" "contents d' = apply_batch b (contents (database s))"
      by blast
    with registry_maxes_write_upper m
    have "m \<in> registry_maxes (contents (database s)) \<union> data_seq ` set (filter data_keyable xs)" by simp
    with good xs show ?thesis by (auto simp: rocks_good_def data_seq_def)
  next
    case False
    have "contents (database (snd (write_packets R ser xs s))) = contents (database s)"
    proof (cases "xs = []")
      case True
      with s show ?thesis by (simp add: write_packets_def)
    next
      case xs: False
      from write_packets_failed [OF s xs] False xs obtain d' where
        "write_packets R ser xs s = (Inr (map snd xs), set_database d' s)"
        "contents d' = contents (database s)" by blast
      then show ?thesis by simp
    qed
    with m good show ?thesis by (simp add: rocks_good_def)
  qed
  with write_packets_wf [OF wf] s show ?thesis by (simp add: rocks_good_def)
qed

lemma rocks_write_result:
  assumes good: "rocks_good contents s"
  shows "(fst (write_packets R ser xs s) = Inr (map snd xs) \<and>
          rocks_lookup contents (snd (write_packets R ser xs s)) = rocks_lookup contents s) \<or>
         (fst (write_packets R ser xs s) =
            Inr (filter (\<lambda>p. \<not> keyable (stream_identifier p)) (map snd xs)) \<and>
          (\<forall>i q. keyable i \<longrightarrow> rocks_lookup contents (snd (write_packets R ser xs s)) i q =
            (case latest xs i q of Some (t, p) \<Rightarrow> Some (t, ser p) | None \<Rightarrow> rocks_lookup contents s i q)))"
proof (cases "xs \<noteq> [] \<and> \<not> write_status R ser xs s")
  case True
  have s: "rd_mInitialized s" using good by (simp add: rocks_good_def)
  from write_packets_failed [OF s, of xs ser] True obtain d' where
    "write_packets R ser xs s = (Inr (map snd xs), set_database d' s)"
    "contents d' = contents (database s)" by blast
  with rocks_same(1) [of "set_database d' s" s] show ?thesis by simp
next
  case False
  have s: "rd_mInitialized s" using good by (simp add: rocks_good_def)
  show ?thesis
  proof (cases "xs = []")
    case True
    with s show ?thesis by (simp add: write_packets_def)
  next
    case xs: False
    from write_packets_ok [OF s xs] False xs obtain n b d' where
      w: "write_packets R ser xs s = (Inr n, set_database d' s)"
        "write_batch R ser (database s) xs = (n, b)"
        "contents d' = apply_batch b (contents (database s))" by blast
    have "n = filter (\<lambda>p. \<not> keyable (stream_identifier p)) (map snd xs)"
      using write_contents(1) [OF w(2)] by (simp add: filter_map comp_def data_keyable_def)
    with w stored_write_batch [OF w(2)] show ?thesis
      by (auto simp: rocks_lookup_def split: option.split)
  qed
qed

lemma rocks_query_answers:
  assumes "rocks_good contents s" "keyable i"
  shows "\<exists>rs. query R [(i, q)] s = Inr rs \<and> answers (rocks_lookup contents s i) q rs"
proof -
  from assms(1) have wf: "store_wf (contents (database s))" and s: "rd_mInitialized s"
    by (simp_all add: rocks_good_def)
  have "rocks_lookup contents s i = stored (contents (database s)) i"
    using assms(2) by (simp add: rocks_lookup_def fun_eq_iff)
  then show ?thesis
    using query_eq [OF wf s, of "[(i, q)]"] sorted_responses [OF wf assms(2)]
      set_responses [OF wf assms(2)] assms(2) by (simp add: answers_def)
qed

lemma rocks_global:
  assumes "rocks_good contents s"
  shows "\<exists>g. getGlobalSequenceNumber R s = Inr g \<and> g < sequence_limit \<and>
    (\<forall>i q. keyable i \<and> rocks_lookup contents s i q \<noteq> None \<longrightarrow> q \<le> g)"
proof -
  from assms have wf: "store_wf (contents (database s))" and s: "rd_mInitialized s"
    and max: "\<forall>m\<in>registry_maxes (contents (database s)). m < sequence_limit"
    by (simp_all add: rocks_good_def)
  note g = getGlobalSequenceNumber_eq [OF s]
  have "Max (insert 0 (registry_maxes (contents (database s)))) < sequence_limit"
    using max finite_registry_maxes by (subst Max_less_iff) (auto simp: sequence_limit_def)
  with g stored_le_global [OF wf s] show ?thesis by (auto simp: rocks_lookup_def)
qed

lemma rocks_compact:
  assumes "rocks_good contents s" "Rocks_Database.compact R t s = (u, s')"
  shows "u = Inr () \<and> rocks_good contents s' \<and>
    rocks_lookup contents s' = rocks_lookup contents s \<and> rocks_span R s' = rocks_span R s"
proof -
  have c: "contents (database s') = contents (database s)" using compact_contents [of t s] assms(2) by simp
  moreover have "u = Inr ()" "rd_mInitialized s'"
    using assms operations_keep_initialized(3) [of R t s] by (auto simp: rocks_good_def compact_def)
  moreover have "rocks_span R s' = rocks_span R s"
    using assms(1) by (intro rocks_span_same [OF c]) (simp add: rocks_good_def)
  ultimately show ?thesis using rocks_same [OF c] assms(1) by simp
qed

lemma rocks_flush:
  assumes "rocks_good contents s"
  shows "rocks_good contents (Rocks_Database.flush R s) \<and>
    rocks_lookup contents (Rocks_Database.flush R s) = rocks_lookup contents s \<and>
    rocks_span R (Rocks_Database.flush R s) = rocks_span R s"
  using assms rocks_span_same [OF flush_contents, of s] rocks_same [OF flush_contents, of s]
  by (simp add: rocks_good_def)

end

lemma RocksStore_simps [simp]:
  "st_getGlobalSequenceNumber (RocksStore R ser) = Rocks_Database.getGlobalSequenceNumber R"
  "st_write (RocksStore R ser) = write_packets R ser"
  "st_compact (RocksStore R ser) = Rocks_Database.compact R"
  "st_flush (RocksStore R ser) = Rocks_Database.flush R"
  "st_getSizeInBytes (RocksStore R ser) = Rocks_Database.getSizeInBytes R"
  "st_truncateOldest (RocksStore R ser) = Rocks_Database.truncateOldest R"
  "st_query (RocksStore R ser) = Rocks_Database.query R"
  by (simp_all add: RocksStore_def)

sublocale rocks_store \<subseteq> data_store "RocksStore R ser" "rocks_good contents"
    "rocks_lookup contents" "rocks_span R" ser
  by (unfold_locales; unfold RocksStore_simps)
    (erule rocks_write_good rocks_write_result rocks_truncate_progress rocks_compact rocks_flush
      rocks_query_answers rocks_global; assumption)+

context rocks_store
begin
lemmas rocks_data_store = data_store_axioms
end

lemma RocksStore_contract:
  "rocks_api R contents \<Longrightarrow> data_store (RocksStore R ser) (rocks_good contents)
     (rocks_lookup contents) (rocks_span R) ser"
  by (rule rocks_store.rocks_data_store) (simp add: rocks_store_def)

interpretation mem_store: rocks_store mem_rocks mem_contents demo_ser
  by unfold_locales

section \<open>Properties\<close>

lemma demo_handle_good: "rocks_good mem_contents (demo_handle mem_empty)"
  by (simp add: rocks_good_def store_wf_empty registry_maxes_def)

lemma demo_write_one:
  "fst (write_one (RocksStore mem_rocks demo_ser) (9, demo_packet 1) (demo_handle mem_empty)) = Inr False"
proof -
  obtain b d' where "write_packets mem_rocks demo_ser [(9, demo_packet 1)] (demo_handle mem_empty) =
      (Inr [], set_database d' (demo_handle mem_empty))"
  proof (rule mem.write_packets_ok [of "demo_handle mem_empty" "[(9, demo_packet 1)]" demo_ser])
    fix n b d' assume w: "write_packets mem_rocks demo_ser [(9, demo_packet 1)]
        (demo_handle mem_empty) = (Inr n, set_database d' (demo_handle mem_empty))"
      "write_batch mem_rocks demo_ser (database (demo_handle mem_empty)) [(9, demo_packet 1)] = (n, b)"
    from mem.write_contents(1) [OF w(2)] have "n = []" by (simp add: data_keyable_def)
    with w that show thesis by blast
  qed (simp_all add: mem_empty_accepts)
  then show ?thesis by (simp add: write_one_def)
qed

text \<open>C31.  The one-off write answers the wrong way round: for a packet that can be keyed it returns
  false exactly when the store took the packet, and true when the database rejected it and the
  store is unchanged.\<close>

theorem write_one_answers_inverted:
  assumes "rocks_api R contents" "rocks_good contents s" "keyable (stream_identifier p)"
  shows "(fst (write_one (RocksStore R ser) (t, p) s) = Inr False \<and>
          stored (contents (database (snd (write_one (RocksStore R ser) (t, p) s))))
            (stream_identifier p) (sequence_number p) = Some (t, ser p)) \<or>
         (fst (write_one (RocksStore R ser) (t, p) s) = Inr True \<and>
          (\<forall>i q. keyable i \<longrightarrow>
            stored (contents (database (snd (write_one (RocksStore R ser) (t, p) s)))) i q =
            stored (contents (database s)) i q))"
  using data_store.write_one_inverted [OF RocksStore_contract [OF assms(1)] assms(2,3), of ser t] assms(3)
  by (auto simp: rocks_lookup_def fun_eq_iff split: if_splits)

theorem write_one_answers_inverted_witness:
  "fst (write_one (RocksStore mem_rocks demo_ser) (9, demo_packet 1) (demo_handle mem_empty)) = Inr False \<and>
   stored (mem_contents (database (snd (write_one (RocksStore mem_rocks demo_ser) (9, demo_packet 1)
     (demo_handle mem_empty))))) demo_id 1 = Some (9, demo_ser (demo_packet 1))"
  using write_one_answers_inverted [OF mem.rocks_api_axioms demo_handle_good, of "demo_packet 1"
      demo_ser 9] demo_write_one by simp

text \<open>A packet that a one-off write stored is the first answer to a one-off query for its stream
  from its sequence number.\<close>

lemma write_one_then_query_one:
  assumes "rocks_api R contents" "rocks_good contents s" "keyable (stream_identifier p)"
    and "sequence_number p < sequence_limit"
    and "fst (write_one (RocksStore R ser) (t, p) s) = Inr False"
  shows "\<exists>rs. query_one (RocksStore R ser) (stream_identifier p, sequence_number p)
             (snd (write_one (RocksStore R ser) (t, p) s)) = Inr rs \<and> rs \<noteq> [] \<and>
           hd rs = \<lparr>qr_packet = ser p, qr_receivedAt = t, qr_sequenceNumber = sequence_number p\<rparr>"
  by (rule data_store.write_then_query [OF RocksStore_contract [OF assms(1)] assms(2-5)])


end
