(* ===== verification/Metrics.thy ===== *)
theory Metrics
  imports Complex_Main Broker_Prelude
begin

text \<open>
  \<open>src/metricsSingleton.cpp\<close> and \<open>src/version.cpp\<close>.  The singleton is one record that the publish
  service and the broker pass along; each of its operations is one atomic access, so every
  interleaving of them is a sequence of these functions.  The counters are \<open>int64_t\<close> and wrap.  The
  utilization is the exact quotient where the code has the rounded \<open>double\<close>.
\<close>

section \<open>The metrics singleton\<close>

record MetricsSingleton =
  mTotalNumberOfPacketsReceived :: i64
  mNumberOfInvalidPacketsReceived :: i64
  mNumberOfPacketsAddedToImportQueue :: i64
  mNumberOfPacketsPoppedFromImportQueue :: i64
  mPublishServiceUtilization :: real

definition MetricsSingleton_init :: MetricsSingleton where
  "MetricsSingleton_init = \<lparr>mTotalNumberOfPacketsReceived = 0,
     mNumberOfInvalidPacketsReceived = 0, mNumberOfPacketsAddedToImportQueue = 0,
     mNumberOfPacketsPoppedFromImportQueue = 0, mPublishServiceUtilization = 0\<rparr>"

definition resetMetrics :: "MetricsSingleton \<Rightarrow> MetricsSingleton" where
  "resetMetrics m = m\<lparr>mTotalNumberOfPacketsReceived := 0, mNumberOfInvalidPacketsReceived := 0,
     mNumberOfPacketsAddedToImportQueue := 0, mNumberOfPacketsPoppedFromImportQueue := 0,
     mPublishServiceUtilization := 0\<rparr>"

definition updatePublishServiceUtilization :: "real \<Rightarrow> MetricsSingleton \<Rightarrow> MetricsSingleton" where
  "updatePublishServiceUtilization utilization m =
     m\<lparr>mPublishServiceUtilization := min (max 0 utilization) 1\<rparr>"

definition incrementTotalNumberOfPacketsReceived :: "MetricsSingleton \<Rightarrow> MetricsSingleton" where
  "incrementTotalNumberOfPacketsReceived m =
     m\<lparr>mTotalNumberOfPacketsReceived := mTotalNumberOfPacketsReceived m + 1\<rparr>"

definition incrementNumberOfInvalidPacketsReceived :: "MetricsSingleton \<Rightarrow> MetricsSingleton" where
  "incrementNumberOfInvalidPacketsReceived m =
     m\<lparr>mNumberOfInvalidPacketsReceived := mNumberOfInvalidPacketsReceived m + 1\<rparr>"

definition incrementNumberOfPacketsWrittenToImportQueue :: "MetricsSingleton \<Rightarrow> MetricsSingleton" where
  "incrementNumberOfPacketsWrittenToImportQueue m =
     m\<lparr>mNumberOfPacketsAddedToImportQueue := mNumberOfPacketsAddedToImportQueue m + 1\<rparr>"

definition incrementNumberOfPacketsPoppedFromImportQueue ::
  "int \<Rightarrow> MetricsSingleton \<Rightarrow> MetricsSingleton" where
  "incrementNumberOfPacketsPoppedFromImportQueue n m =
     m\<lparr>mNumberOfPacketsPoppedFromImportQueue :=
        mNumberOfPacketsPoppedFromImportQueue m + word_of_int (max 0 n)\<rparr>"

section \<open>The version of the library\<close>

text \<open>The version macros come from a header the build generates.\<close>

record VersionMacros =
  version_major :: int
  version_minor :: int
  version_patch :: int
  version_string :: string
  version_gittag :: string

definition isAtLeast :: "VersionMacros \<Rightarrow> int \<Rightarrow> int \<Rightarrow> int \<Rightarrow> bool" where
  "isAtLeast V major minor patch =
     (if version_major V < major then False
      else if version_major V > major then True
      else if version_minor V < minor then False
      else if version_minor V > minor then True
      else if version_patch V < patch then False
      else True)"

definition getVersionWithTag :: "VersionMacros \<Rightarrow> string" where
  "getVersionWithTag V =
     (let tag = version_gittag V
      in if tag = [] then version_string V else version_string V @ ''-'' @ tag)"

section \<open>Properties\<close>

text \<open>The library is at least a version exactly when that version is lexicographically at most
  its own (major, minor, patch).\<close>

lemma isAtLeast_lexicographic:
  "isAtLeast V a b c =
     ([a, b, c] \<le> [version_major V, version_minor V, version_patch V])"
  by (auto simp: isAtLeast_def)

end
