(* ===== verification/Publish_Service.thy ===== *)
theory Publish_Service
  imports Keys Options Metrics
begin

text \<open>
  \<open>src/publishService.cpp\<close>: the client-streaming Publish RPC.  gRPC is outside the repository: what it
  tells the code (the client's metadata, a read that finished, the end of a call, whether a server
  could be built) is an input of the handlers, and what the code asks of it is recorded as a list of
  calls in the reader.  A handler's work on the reader, the shared counter and the metrics is a
  function; the constructor is split at the two points where it touches the shared counter, so that
  constructors of concurrent calls can interleave.  Logging is left out.
\<close>

section \<open>Readers\<close>

datatype StatusCode = OK | RESOURCE_EXHAUSTED | UNAUTHENTICATED | INVALID_ARGUMENT | UNAVAILABLE

datatype reactor_call =
    StartRead
  | Finish StatusCode string

fun is_Finish :: "reactor_call \<Rightarrow> bool" where
  "is_Finish StartRead = False"
| "is_Finish (Finish c m) = True"

record LastPacketIdentifier =
  lp_stream_identifier :: "StreamIdentifier option"
  lp_sequence_number :: "u64 option"

record PublishResponse =
  pr_total_packets :: u64
  pr_invalid_packets :: u64
  pr_last_packet_identifier :: "LastPacketIdentifier option"

record AsynchronousReader =
  ar_mResponse :: PublishResponse
  ar_mLastPacketIdentifier :: LastPacketIdentifier
  ar_mTotalPackets :: u64
  ar_mInvalidPackets :: u64
  ar_mInvalidMessageCounter :: u32
  ar_mMaximumConsecutiveInvalidMessages :: u32
  ar_mMaximumNumberOfPublishers :: int
  ar_mRegistered :: bool
  ar_calls :: "reactor_call list"       \<comment> \<open>the calls made on the reactor, oldest first\<close>

definition empty_last_packet :: LastPacketIdentifier where
  "empty_last_packet = \<lparr>lp_stream_identifier = None, lp_sequence_number = None\<rparr>"

definition empty_response :: PublishResponse where
  "empty_response = \<lparr>pr_total_packets = 0, pr_invalid_packets = 0, pr_last_packet_identifier = None\<rparr>"

definition call :: "reactor_call \<Rightarrow> AsynchronousReader \<Rightarrow> AsynchronousReader" where
  "call c r = r\<lparr>ar_calls := ar_calls r @ [c]\<rparr>"

text \<open>The members before the body of the constructor, and the two limits it copies.\<close>

definition reader_init :: "PublishServiceOptions \<Rightarrow> AsynchronousReader" where
  "reader_init options = \<lparr>ar_mResponse = empty_response,
     ar_mLastPacketIdentifier = empty_last_packet, ar_mTotalPackets = 0, ar_mInvalidPackets = 0,
     ar_mInvalidMessageCounter = 0,
     ar_mMaximumConsecutiveInvalidMessages = mMaximumConsecutiveInvalidMessages options,
     ar_mMaximumNumberOfPublishers = mMaximumPublishers options, ar_mRegistered = False,
     ar_calls = []\<rparr>"

fun metadata_has :: "(string \<times> string) list \<Rightarrow> string \<Rightarrow> bool" where
  "metadata_has [] accessToken = False"
| "metadata_has ((key, value) # items) accessToken =
     (if key = ''x-custom-auth-token'' \<and> value = accessToken then True
      else metadata_has items accessToken)"

definition validatePublisher :: "(string \<times> string) list \<Rightarrow> string \<Rightarrow> bool" where
  "validatePublisher client_metadata accessToken =
     (if accessToken = [] then True else metadata_has client_metadata accessToken)"

text \<open>The constructor up to the increment of the counter: is the publisher admitted?\<close>

definition reader_admit ::
  "PublishServiceOptions \<Rightarrow> (string \<times> string) list \<Rightarrow> int \<Rightarrow> bool
   \<Rightarrow> (bool \<times> AsynchronousReader) result" where
  "reader_admit options client_metadata publisherCount isSecured =
     (let r = reader_init options
      in if publisherCount \<ge> ar_mMaximumNumberOfPublishers r
         then Inr (False, call (Finish RESOURCE_EXHAUSTED ''Maximum publisher limit reached'') r)
         else (case getGRPCOptions options of
                 Inl e \<Rightarrow> Inl e
               | Inr grpcOptions \<Rightarrow>
                   let accessToken = mAccessToken grpcOptions
                   in if isSecured
                      then (case accessToken of
                              None \<Rightarrow> Inr (True, r)
                            | Some token \<Rightarrow>
                                if \<not> validatePublisher client_metadata token
                                then Inr (False, call (Finish UNAUTHENTICATED ''Invalid access token'') r)
                                else Inr (True, r))
                      else Inr (True, r)))"

definition utilization :: "int \<Rightarrow> int \<Rightarrow> real" where
  "utilization nPublishers maximum = of_int nPublishers / of_int (max 1 maximum)"

text \<open>The rest of the constructor.\<close>

definition reader_register ::
  "bool \<Rightarrow> AsynchronousReader \<Rightarrow> int \<times> MetricsSingleton \<Rightarrow> AsynchronousReader \<times> int \<times> MetricsSingleton" where
  "reader_register keepRunning r = (\<lambda>(publisherCount, metrics).
     let nPublishers = publisherCount + 1;
         metrics = updatePublishServiceUtilization
                     (utilization nPublishers (ar_mMaximumNumberOfPublishers r)) metrics;
         r = r\<lparr>ar_mRegistered := True\<rparr>
     in (call (if keepRunning then StartRead else Finish OK []) r, nPublishers, metrics))"

text \<open>\<open>OnReadDone\<close>.  The packet is what gRPC put into \<open>mCurrentPacket\<close>, the callback is the broker's
  with its state, and \<open>keepRunning\<close> is the flag when the handler reads it.\<close>

definition count_invalid :: "AsynchronousReader \<Rightarrow> AsynchronousReader" where
  "count_invalid r = r\<lparr>ar_mInvalidMessageCounter := ar_mInvalidMessageCounter r + 1,
                       ar_mInvalidPackets := ar_mInvalidPackets r + 1\<rparr>"

definition next_read :: "bool \<Rightarrow> AsynchronousReader \<Rightarrow> AsynchronousReader" where
  "next_read keepRunning r =
     call (if keepRunning then StartRead
           else Finish UNAVAILABLE ''Server shutdown - try again later'') r"

definition OnReadDone ::
  "(Packet \<Rightarrow> 'b \<Rightarrow> exn option \<times> 'b) \<Rightarrow> bool \<Rightarrow> bool \<Rightarrow> Packet \<Rightarrow> AsynchronousReader \<times> 'b
   \<Rightarrow> AsynchronousReader \<times> 'b" where
  "OnReadDone callback keepRunning ok packet = (\<lambda>(r, b).
     if ok then
       let r = r\<lparr>ar_mTotalPackets := ar_mTotalPackets r + 1\<rparr>;
           lastSequenceNumber = sequence_number packet;
           lastStreamIdentifier = stream_identifier packet
       in (case callback packet b of
             (None, b) \<Rightarrow>
               (next_read keepRunning
                  (r\<lparr>ar_mInvalidMessageCounter := 0,
                     ar_mLastPacketIdentifier :=
                       \<lparr>lp_stream_identifier = Some lastStreamIdentifier,
                        lp_sequence_number = Some lastSequenceNumber\<rparr>\<rparr>), b)
           | (Some (InvalidArgument m), b) \<Rightarrow>
               let r = count_invalid r
               in if ar_mInvalidMessageCounter r > ar_mMaximumConsecutiveInvalidMessages r
                  then (call (Finish INVALID_ARGUMENT
                          ''Too many consecutive messages were invalid - check API'') r, b)
                  else (next_read keepRunning r, b)
           | (Some e, b) \<Rightarrow> (next_read keepRunning r, b))
     else
       let r = r\<lparr>ar_mResponse := (ar_mResponse r)
                  \<lparr>pr_total_packets := ar_mTotalPackets r,
                   pr_invalid_packets := ar_mInvalidPackets r,
                   pr_last_packet_identifier := Some (ar_mLastPacketIdentifier r)\<rparr>\<rparr>
       in (call (if keepRunning then Finish OK []
                 else Finish UNAVAILABLE ''Server shutdown - try again later'') r, b))"

text \<open>\<open>OnDone\<close> before the reader deletes itself; \<open>OnCancel\<close> only logs.\<close>

definition OnDone :: "AsynchronousReader \<Rightarrow> int \<times> MetricsSingleton \<Rightarrow> int \<times> MetricsSingleton" where
  "OnDone r = (\<lambda>(publisherCount, metrics).
     if ar_mRegistered r
     then let nPublishers = publisherCount - 1
          in (nPublishers, updatePublishServiceUtilization
                (utilization nPublishers (ar_mMaximumNumberOfPublishers r)) metrics)
     else (publisherCount, metrics))"

definition OnCancel :: "AsynchronousReader \<Rightarrow> AsynchronousReader" where
  "OnCancel r = r"

section \<open>The service\<close>

text \<open>What the service asks the gRPC server builder for.\<close>

record ServerConfig =
  sc_address :: string
  sc_max_receive_message_size :: "int option"
  sc_key_certificate :: "(string \<times> string) option"     \<comment> \<open>\<open>None\<close>: insecure credentials\<close>

record PublishServiceImpl =
  ps_mOptions :: PublishServiceOptions
  ps_mServer :: "ServerConfig option"
  ps_mPublisherCount :: int
  ps_mKeepRunning :: bool
  ps_mServerStarted :: bool
  ps_mSecured :: bool

definition PublishService_construct :: "PublishServiceOptions \<Rightarrow> PublishServiceImpl result" where
  "PublishService_construct options =
     (if \<not> mHasGRPCOptions options then Inl (InvalidArgument ''GRPC server options not set'')
      else Inr \<lparr>ps_mOptions = options, ps_mServer = None, ps_mPublisherCount = 0,
                ps_mKeepRunning = True, ps_mServerStarted = False, ps_mSecured = False\<rparr>)"

definition server_config :: "PublishServiceOptions \<Rightarrow> GRPCServerOptions \<Rightarrow> ServerConfig" where
  "server_config options grpcOptions =
     \<lparr>sc_address = mHost grpcOptions @ '':'' @ to_string (unat (mPort grpcOptions)),
      sc_max_receive_message_size = mMaximumMessageSizeInBytes options,
      sc_key_certificate =
        (if mServerKey grpcOptions = None \<or> mServerCertificate grpcOptions = None then None
         else Some (the (mServerKey grpcOptions), the (mServerCertificate grpcOptions)))\<rparr>"

text \<open>\<open>start\<close> until it waits for the server.  \<open>build\<close> is \<open>BuildAndStart\<close>: false when it returns a null
  pointer, which the code then dereferences (\<open>None\<close>).\<close>

definition start_listening ::
  "(ServerConfig \<Rightarrow> bool) \<Rightarrow> PublishServiceImpl \<times> MetricsSingleton
   \<Rightarrow> (PublishServiceImpl \<times> MetricsSingleton) result option" where
  "start_listening build = (\<lambda>(p, metrics).
     let p = p\<lparr>ps_mKeepRunning := True, ps_mPublisherCount := 0\<rparr>;
         metrics = updatePublishServiceUtilization 0 metrics
     in (case getGRPCOptions (ps_mOptions p) of
           Inl e \<Rightarrow> Some (Inl e)
         | Inr grpcOptions \<Rightarrow>
             let config = server_config (ps_mOptions p) grpcOptions;
                 p = p\<lparr>ps_mSecured := (sc_key_certificate config \<noteq> None)\<rparr>
             in if build config
                then Some (Inr (p\<lparr>ps_mServer := Some config, ps_mServerStarted := True\<rparr>, metrics))
                else None))"

text \<open>After \<open>Wait\<close> returned.\<close>

definition start_finished :: "PublishServiceImpl \<Rightarrow> PublishServiceImpl" where
  "start_finished p = p\<lparr>ps_mServerStarted := False\<rparr>"

definition stop_service ::
  "PublishServiceImpl \<times> MetricsSingleton \<Rightarrow> PublishServiceImpl \<times> MetricsSingleton" where
  "stop_service = (\<lambda>(p, metrics).
     let p = p\<lparr>ps_mKeepRunning := False\<rparr>;
         p = (if ps_mServer p \<noteq> None \<and> ps_mServerStarted p
              then p\<lparr>ps_mServerStarted := False, ps_mServer := None\<rparr> else p);
         p = p\<lparr>ps_mPublisherCount := 0\<rparr>
     in (p, updatePublishServiceUtilization 0 metrics))"

text \<open>\<open>Publish\<close> when no other constructor runs in between.\<close>

definition Publish ::
  "(string \<times> string) list \<Rightarrow> PublishServiceImpl \<times> MetricsSingleton
   \<Rightarrow> (AsynchronousReader \<times> PublishServiceImpl \<times> MetricsSingleton) result" where
  "Publish client_metadata = (\<lambda>(p, metrics).
     case reader_admit (ps_mOptions p) client_metadata (ps_mPublisherCount p) (ps_mSecured p) of
       Inl e \<Rightarrow> Inl e
     | Inr (False, r) \<Rightarrow> Inr (r, p, metrics)
     | Inr (True, r) \<Rightarrow>
         (case reader_register (ps_mKeepRunning p) r (ps_mPublisherCount p, metrics) of
            (r, n, metrics) \<Rightarrow> Inr (r, p\<lparr>ps_mPublisherCount := n\<rparr>, metrics)))"

end
