(* ===== verification/Publish_System.thy ===== *)
theory Publish_System
  imports Publish_Service
begin

text \<open>
  Correctness of the publish service: admission, the effect of one read, whole sessions, and the
  interleavings of several concurrent calls as a step relation with its invariant.
\<close>

section \<open>Admission\<close>

definition authorized :: "PublishServiceOptions \<Rightarrow> bool \<Rightarrow> (string \<times> string) list \<Rightarrow> bool" where
  "authorized options isSecured client_metadata \<longleftrightarrow>
     (isSecured \<longrightarrow> (case mAccessToken (mGRPCOptions options) of
        None \<Rightarrow> True
      | Some token \<Rightarrow> token = [] \<or> (''x-custom-auth-token'', token) \<in> set client_metadata))"

lemma metadata_has_iff: "metadata_has items token \<longleftrightarrow> (''x-custom-auth-token'', token) \<in> set items"
  by (induction items token rule: metadata_has.induct) auto

lemma validatePublisher_iff:
  "validatePublisher items token \<longleftrightarrow> token = [] \<or> (''x-custom-auth-token'', token) \<in> set items"
  by (simp add: validatePublisher_def metadata_has_iff)

lemma call_simps [simp]:
  "ar_calls (call c r) = ar_calls r @ [c]"
  "ar_mRegistered (call c r) = ar_mRegistered r"
  "ar_mResponse (call c r) = ar_mResponse r"
  "ar_mLastPacketIdentifier (call c r) = ar_mLastPacketIdentifier r"
  "ar_mTotalPackets (call c r) = ar_mTotalPackets r"
  "ar_mInvalidPackets (call c r) = ar_mInvalidPackets r"
  "ar_mInvalidMessageCounter (call c r) = ar_mInvalidMessageCounter r"
  "ar_mMaximumConsecutiveInvalidMessages (call c r) = ar_mMaximumConsecutiveInvalidMessages r"
  "ar_mMaximumNumberOfPublishers (call c r) = ar_mMaximumNumberOfPublishers r"
  by (simp_all add: call_def)

lemma reader_init_simps [simp]:
  "ar_calls (reader_init o') = []" "\<not> ar_mRegistered (reader_init o')"
  "ar_mMaximumNumberOfPublishers (reader_init o') = mMaximumPublishers o'"
  "ar_mMaximumConsecutiveInvalidMessages (reader_init o') = mMaximumConsecutiveInvalidMessages o'"
  "ar_mTotalPackets (reader_init o') = 0" "ar_mInvalidPackets (reader_init o') = 0"
  "ar_mInvalidMessageCounter (reader_init o') = 0"
  "ar_mLastPacketIdentifier (reader_init o') = empty_last_packet"
  by (simp_all add: reader_init_def)

lemma reader_admit_cases:
  assumes "mHasGRPCOptions options"
  shows "reader_admit options md n secured =
    (if mMaximumPublishers options \<le> n
     then Inr (False, call (Finish RESOURCE_EXHAUSTED ''Maximum publisher limit reached'') (reader_init options))
     else if \<not> authorized options secured md
     then Inr (False, call (Finish UNAUTHENTICATED ''Invalid access token'') (reader_init options))
     else Inr (True, reader_init options))"
  using assms by (auto simp: reader_admit_def getGRPCOptions_def authorized_def validatePublisher_iff
      Let_def split: option.split)

lemma reader_admit_Inr:
  assumes "reader_admit options md n secured = Inr (b, r)"
  shows "\<not> ar_mRegistered r" "b \<Longrightarrow> r = reader_init options \<and> n < mMaximumPublishers options"
    "\<not> b \<Longrightarrow> \<exists>c m. ar_calls r = [Finish c m]"
  using assms by (auto simp: reader_admit_def Let_def split: if_splits sum.splits option.splits)

lemma reader_register_simps [simp]:
  "fst (reader_register k r (n, m)) = call (if k then StartRead else Finish OK []) (r\<lparr>ar_mRegistered := True\<rparr>)"
  "fst (snd (reader_register k r (n, m))) = n + 1"
  by (simp_all add: reader_register_def Let_def)

section \<open>One read\<close>

datatype outcome = Accepted | Invalid | Failed

definition outcome_of :: "exn option \<Rightarrow> outcome" where
  "outcome_of e = (case e of None \<Rightarrow> Accepted | Some (InvalidArgument m) \<Rightarrow> Invalid | Some _ \<Rightarrow> Failed)"

lemma next_read_simps [simp]:
  "next_read True r = call StartRead r"
  "next_read False r = call (Finish UNAVAILABLE ''Server shutdown - try again later'') r"
  by (simp_all add: next_read_def)

lemma count_invalid_simps [simp]:
  "ar_mInvalidMessageCounter (count_invalid r) = ar_mInvalidMessageCounter r + 1"
  "ar_mInvalidPackets (count_invalid r) = ar_mInvalidPackets r + 1"
  "ar_mTotalPackets (count_invalid r) = ar_mTotalPackets r"
  "ar_mLastPacketIdentifier (count_invalid r) = ar_mLastPacketIdentifier r"
  "ar_mMaximumConsecutiveInvalidMessages (count_invalid r) = ar_mMaximumConsecutiveInvalidMessages r"
  "ar_mRegistered (count_invalid r) = ar_mRegistered r"
  "ar_calls (count_invalid r) = ar_calls r"
  "ar_mResponse (count_invalid r) = ar_mResponse r"
  by (simp_all add: count_invalid_def)

lemma OnReadDone_one_call:
  "\<exists>c. ar_calls (fst (OnReadDone cb k ok p (r, b))) = ar_calls r @ [c] \<and>
       ar_mRegistered (fst (OnReadDone cb k ok p (r, b))) = ar_mRegistered r"
  by (cases k; cases ok; cases "cb p b")
    (auto simp: OnReadDone_def Let_def split: option.split exn.split)

text \<open>A read that the server wants to continue after, by the outcome of the callback.\<close>

definition identifier_of :: "Packet \<Rightarrow> LastPacketIdentifier" where
  "identifier_of p = \<lparr>lp_stream_identifier = Some (stream_identifier p),
                      lp_sequence_number = Some (sequence_number p)\<rparr>"

lemma OnReadDone_outcome:
  assumes "cb p b = (e, b')"
  shows "OnReadDone cb True True p (r, b) =
    (let r1 = r\<lparr>ar_mTotalPackets := ar_mTotalPackets r + 1\<rparr> in
     (case outcome_of e of
        Accepted \<Rightarrow> call StartRead (r1\<lparr>ar_mInvalidMessageCounter := 0,
                      ar_mLastPacketIdentifier := identifier_of p\<rparr>)
      | Invalid \<Rightarrow>
          if ar_mInvalidMessageCounter r + 1 > ar_mMaximumConsecutiveInvalidMessages r
          then call (Finish INVALID_ARGUMENT
                 ''Too many consecutive messages were invalid - check API'') (count_invalid r1)
          else call StartRead (count_invalid r1)
      | Failed \<Rightarrow> call StartRead r1), b')"
  using assms by (auto simp: OnReadDone_def outcome_of_def identifier_of_def Let_def
      split: option.split exn.split)

section \<open>Sessions\<close>

text \<open>A session of a client that sends the packets and then closes its side, on a running server:
  gRPC delivers the next read only after the handler asked for one.\<close>

fun read_session ::
  "(Packet \<Rightarrow> 'b \<Rightarrow> exn option \<times> 'b) \<Rightarrow> Packet list \<Rightarrow> AsynchronousReader \<times> 'b \<Rightarrow> AsynchronousReader \<times> 'b" where
  "read_session cb [] s = OnReadDone cb True False empty_packet s"
| "read_session cb (p # ps) s =
     (let s' = OnReadDone cb True True p s
      in if last (ar_calls (fst s')) = StartRead then read_session cb ps s' else s')"

fun outcomes :: "(Packet \<Rightarrow> 'b \<Rightarrow> exn option \<times> 'b) \<Rightarrow> Packet list \<Rightarrow> 'b \<Rightarrow> outcome list" where
  "outcomes cb [] b = []"
| "outcomes cb (p # ps) b = outcome_of (fst (cb p b)) # outcomes cb ps (snd (cb p b))"

fun disconnects :: "nat \<Rightarrow> nat \<Rightarrow> outcome list \<Rightarrow> bool" where
  "disconnects n c [] = False"
| "disconnects n c (Accepted # os) = disconnects n 0 os"
| "disconnects n c (Invalid # os) = (n < c + 1 \<or> disconnects n (c + 1) os)"
| "disconnects n c (Failed # os) = disconnects n c os"

definition invalid_run :: "nat \<Rightarrow> outcome list \<Rightarrow> bool" where
  "invalid_run n os \<longleftrightarrow> (\<exists>xs ys zs. os = xs @ ys @ zs \<and> Accepted \<notin> set ys \<and> n < count_list ys Invalid)"

abbreviation first_invalids :: "outcome list \<Rightarrow> nat" where
  "first_invalids os \<equiv> count_list (takeWhile (\<lambda>x. x \<noteq> Accepted) os) Invalid"

lemma first_invalids_iff:
  "n < first_invalids os \<longleftrightarrow> (\<exists>ys zs. os = ys @ zs \<and> Accepted \<notin> set ys \<and> n < count_list ys Invalid)"
proof
  assume "n < first_invalids os"
  moreover have "os = takeWhile (\<lambda>x. x \<noteq> Accepted) os @ dropWhile (\<lambda>x. x \<noteq> Accepted) os" by simp
  moreover have "Accepted \<notin> set (takeWhile (\<lambda>x. x \<noteq> Accepted) os)"
    using set_takeWhileD by fastforce
  ultimately show "\<exists>ys zs. os = ys @ zs \<and> Accepted \<notin> set ys \<and> n < count_list ys Invalid" by blast
next
  assume "\<exists>ys zs. os = ys @ zs \<and> Accepted \<notin> set ys \<and> n < count_list ys Invalid"
  then obtain ys zs where os: "os = ys @ zs" "Accepted \<notin> set ys" "n < count_list ys Invalid" by blast
  then have "takeWhile (\<lambda>x. x \<noteq> Accepted) os = ys @ takeWhile (\<lambda>x. x \<noteq> Accepted) zs"
    by (auto intro!: takeWhile_append2)
  with os(3) show "n < first_invalids os" by simp
qed

lemma invalid_run_Cons:
  "invalid_run n (x # os) \<longleftrightarrow> n < first_invalids (x # os) \<or> invalid_run n os"
proof -
  have "invalid_run n (x # os) \<longleftrightarrow>
      (\<exists>ys zs. x # os = ys @ zs \<and> Accepted \<notin> set ys \<and> n < count_list ys Invalid) \<or> invalid_run n os"
    unfolding invalid_run_def by (auto simp: Cons_eq_append_conv [of x os]) metis+
  then show ?thesis by (simp only: first_invalids_iff)
qed

lemma invalid_run_first: "n < first_invalids os \<Longrightarrow> invalid_run n os"
  unfolding first_invalids_iff invalid_run_def by (metis append_Nil)

lemma invalid_run_Nil: "\<not> invalid_run n []"
  by (auto simp: invalid_run_def)

lemma disconnects_iff:
  "c \<le> n \<Longrightarrow> disconnects n c os \<longleftrightarrow> n < c + first_invalids os \<or> invalid_run n os"
proof (induction n c os rule: disconnects.induct)
  case (3 n c os)
  then show ?case by (cases "n < c + 1") (auto simp: invalid_run_Cons)
qed (auto simp: invalid_run_Cons invalid_run_Nil dest: invalid_run_first)

text \<open>The last packet a client may consider processed.\<close>

definition last_accepted :: "LastPacketIdentifier \<Rightarrow> (Packet \<times> outcome) list \<Rightarrow> LastPacketIdentifier" where
  "last_accepted = foldl (\<lambda>l (p, x). if x = Accepted then identifier_of p else l)"

lemma last_accepted_simps [simp]:
  "last_accepted l [] = l"
  "last_accepted l ((p, x) # xs) = last_accepted (if x = Accepted then identifier_of p else l) xs"
  by (simp_all add: last_accepted_def)

lemma read_session_end:
  "fst (read_session cb [] (r, b)) = call (Finish OK []) (r\<lparr>ar_mResponse :=
     (ar_mResponse r)\<lparr>pr_total_packets := ar_mTotalPackets r, pr_invalid_packets := ar_mInvalidPackets r,
       pr_last_packet_identifier := Some (ar_mLastPacketIdentifier r)\<rparr>\<rparr>)"
  by (simp add: OnReadDone_def Let_def)

lemma read_session_step:
  assumes "cb p b = (e, b')" "outcome_of e \<noteq> Invalid \<or>
      ar_mInvalidMessageCounter r + 1 \<le> ar_mMaximumConsecutiveInvalidMessages r"
  shows "read_session cb (p # ps) (r, b) = read_session cb ps
    (case outcome_of e of
       Accepted \<Rightarrow> call StartRead (r\<lparr>ar_mTotalPackets := ar_mTotalPackets r + 1,
                     ar_mInvalidMessageCounter := 0, ar_mLastPacketIdentifier := identifier_of p\<rparr>)
     | Invalid \<Rightarrow> call StartRead (count_invalid (r\<lparr>ar_mTotalPackets := ar_mTotalPackets r + 1\<rparr>))
     | Failed \<Rightarrow> call StartRead (r\<lparr>ar_mTotalPackets := ar_mTotalPackets r + 1\<rparr>), b')"
  using assms(2) by (auto simp: OnReadDone_outcome [where cb = cb and p = p and b = b, OF assms(1)] Let_def not_less split: outcome.split)

lemma read_session_cut:
  assumes "cb p b = (e, b')" "outcome_of e = Invalid"
    "ar_mMaximumConsecutiveInvalidMessages r < ar_mInvalidMessageCounter r + 1"
  shows "\<exists>m. last (ar_calls (fst (read_session cb (p # ps) (r, b)))) = Finish INVALID_ARGUMENT m"
  using assms(2,3) by (auto simp: OnReadDone_outcome [where cb = cb and p = p and b = b, OF assms(1)] Let_def)

text \<open>The end of a session, by the outcomes of its packets.\<close>

definition session_ends ::
  "AsynchronousReader \<Rightarrow> (Packet \<times> outcome) list \<Rightarrow> AsynchronousReader \<Rightarrow> bool" where
  "session_ends r xs r' \<longleftrightarrow>
     (disconnects (unat (ar_mMaximumConsecutiveInvalidMessages r))
        (unat (ar_mInvalidMessageCounter r)) (map snd xs) \<longrightarrow>
      (\<exists>m. last (ar_calls r') = Finish INVALID_ARGUMENT m)) \<and>
     (\<not> disconnects (unat (ar_mMaximumConsecutiveInvalidMessages r))
        (unat (ar_mInvalidMessageCounter r)) (map snd xs) \<longrightarrow>
      last (ar_calls r') = Finish OK [] \<and>
      pr_total_packets (ar_mResponse r') = ar_mTotalPackets r + of_nat (length xs) \<and>
      pr_invalid_packets (ar_mResponse r') =
        ar_mInvalidPackets r + of_nat (count_list (map snd xs) Invalid) \<and>
      pr_last_packet_identifier (ar_mResponse r') =
        Some (last_accepted (ar_mLastPacketIdentifier r) xs))"

lemma session_ends_read_session:
  assumes "unat (ar_mInvalidMessageCounter r) + length ps < 2 ^ 32"
    and "ar_mInvalidMessageCounter r \<le> ar_mMaximumConsecutiveInvalidMessages r"
  shows "session_ends r (zip ps (outcomes cb ps b)) (fst (read_session cb ps (r, b)))"
  using assms
proof (induction ps arbitrary: r b)
  case Nil
  then show ?case unfolding read_session_end session_ends_def by simp
next
  case (Cons p ps)
  obtain e b' where cb: "cb p b = (e, b')" by force
  let ?c = "ar_mInvalidMessageCounter r" and ?m = "ar_mMaximumConsecutiveInvalidMessages r"
  have up: "unat (?c + 1) = unat ?c + 1"
    using Cons.prems(1) by (simp add: unat_word_ariths)
  have len: "length (outcomes cb xs b'') = length xs" for xs b'' by (induction xs arbitrary: b'') auto
  show ?case
  proof (cases "outcome_of e = Invalid \<and> ?m < ?c + 1")
    case True
    then have "unat ?m < unat ?c + 1" by (simp add: word_less_nat_alt up)
    with True read_session_cut [where cb = cb and p = p and b = b, OF cb] cb show ?thesis by (simp add: session_ends_def)
  next
    case False
    then have ok: "outcome_of e \<noteq> Invalid \<or> ?c + 1 \<le> ?m" by (simp add: not_less)
    then have "outcome_of e = Invalid \<longrightarrow> \<not> unat ?m < unat ?c + 1"
      by (auto simp: word_le_nat_alt up)
    then have n: "outcome_of e = Invalid \<Longrightarrow> \<not> unat ?m < unat ?c + 1" by simp
    let ?r1 = "r\<lparr>ar_mTotalPackets := ar_mTotalPackets r + 1\<rparr>"
    let ?r' = "case outcome_of e of
       Accepted \<Rightarrow> call StartRead (?r1\<lparr>ar_mInvalidMessageCounter := 0,
                     ar_mLastPacketIdentifier := identifier_of p\<rparr>)
     | Invalid \<Rightarrow> call StartRead (count_invalid ?r1) | Failed \<Rightarrow> call StartRead ?r1"
    note step = read_session_step [where cb = cb and p = p and b = b and r = r and ps = ps, OF cb ok]
    have "session_ends ?r' (zip ps (outcomes cb ps b')) (fst (read_session cb ps (?r', b')))"
      by (rule Cons.IH; cases "outcome_of e") (use Cons.prems ok up in auto)
    with n cb show ?thesis
      unfolding session_ends_def step
      by (cases "outcome_of e") (simp_all add: up len)
  qed
qed

text \<open>A session that is not cut short hands every packet to the callback, in order.\<close>

lemma read_session_backend:
  assumes "unat (ar_mInvalidMessageCounter r) + length ps < 2 ^ 32"
    and "ar_mInvalidMessageCounter r \<le> ar_mMaximumConsecutiveInvalidMessages r"
    and "\<not> disconnects (unat (ar_mMaximumConsecutiveInvalidMessages r))
           (unat (ar_mInvalidMessageCounter r)) (outcomes cb ps b)"
  shows "snd (read_session cb ps (r, b)) = fold (\<lambda>p b. snd (cb p b)) ps b"
  using assms
proof (induction ps arbitrary: r b)
  case Nil
  then show ?case by (simp add: OnReadDone_def Let_def)
next
  case (Cons p ps)
  obtain e b' where cb: "cb p b = (e, b')" by force
  let ?c = "ar_mInvalidMessageCounter r" and ?m = "ar_mMaximumConsecutiveInvalidMessages r"
  have up: "unat (?c + 1) = unat ?c + 1" using Cons.prems(1) by (simp add: unat_word_ariths)
  have ok: "outcome_of e \<noteq> Invalid \<or> ?c + 1 \<le> ?m"
    using Cons.prems(3) cb by (auto simp: word_le_nat_alt up)
  show ?case
    unfolding read_session_step [where cb = cb and p = p and b = b, OF cb ok]
    by (subst Cons.IH; cases "outcome_of e") (use Cons.prems ok up cb in auto)
qed

section \<open>What the service expects of its callback\<close>

text \<open>The interface between the publish service and the component that takes its packets: the callback
  accepts or refuses a packet by its contents only, and while there is room it appends what it
  accepts to a queue.\<close>

locale packet_landing =
  fixes callback :: "Packet \<Rightarrow> 'b \<Rightarrow> exn option \<times> 'b"
    and queue :: "'b \<Rightarrow> Packet list"
    and room :: "nat \<Rightarrow> 'b \<Rightarrow> bool"
    and accepts :: "Packet \<Rightarrow> bool"
  assumes outcome: "outcome_of (fst (callback p b)) = (if accepts p then Accepted else Invalid)"
    and lands: "room (Suc n) b \<Longrightarrow> queue (snd (callback p b)) = queue b @ (if accepts p then [p] else [])"
    and keeps_room: "room (Suc n) b \<Longrightarrow> room n (snd (callback p b))"
begin

lemma outcomes_eq: "outcomes callback ps b = map (\<lambda>p. if accepts p then Accepted else Invalid) ps"
  by (induction ps arbitrary: b) (simp_all add: outcome)

lemma import_all:
  "room (length ps) b \<Longrightarrow> queue (fold (\<lambda>p b. snd (callback p b)) ps b) = queue b @ filter accepts ps"
proof (induction ps arbitrary: b)
  case (Cons p ps)
  then have "room (Suc (length ps)) b" by simp
  with Cons.IH [OF keeps_room] lands show ?case by simp
qed simp

lemma session_imports:
  assumes "room (length ps) b" "length ps < 2 ^ 32"
    and "\<not> invalid_run (unat (mMaximumConsecutiveInvalidMessages options))
           (map (\<lambda>p. if accepts p then Accepted else Invalid) ps)"
  shows "let r = fst (reader_register True (reader_init options) (n, m));
             (r', b') = read_session callback ps (r, b) in
    queue b' = queue b @ filter accepts ps \<and>
    last (ar_calls r') = Finish OK [] \<and>
    pr_total_packets (ar_mResponse r') = of_nat (length ps) \<and>
    pr_invalid_packets (ar_mResponse r') = of_nat (length (filter (\<lambda>p. \<not> accepts p) ps)) \<and>
    pr_last_packet_identifier (ar_mResponse r') =
      Some (if filter accepts ps = [] then empty_last_packet else identifier_of (last (filter accepts ps)))"
proof -
  obtain r where r: "fst (reader_register True (reader_init options) (n, m)) = r" by blast
  have start: "ar_mInvalidMessageCounter r = 0" "ar_mTotalPackets r = 0" "ar_mInvalidPackets r = 0"
    "ar_mMaximumConsecutiveInvalidMessages r = mMaximumConsecutiveInvalidMessages options"
    "ar_mLastPacketIdentifier r = empty_last_packet"
    by (simp_all flip: r)
  let ?os = "map (\<lambda>p. if accepts p then Accepted else Invalid) ps"
  have no_cut: "\<not> disconnects (unat (mMaximumConsecutiveInvalidMessages options)) 0 ?os"
    using assms(3) invalid_run_first by (auto simp: disconnects_iff)
  have ends: "session_ends r (zip ps ?os) (fst (read_session callback ps (r, b)))"
    using session_ends_read_session [of r ps callback b] assms(2) by (simp add: outcomes_eq start)
  have queue: "queue (snd (read_session callback ps (r, b))) = queue b @ filter accepts ps"
    using read_session_backend [of r ps callback b] assms(2) no_cut import_all [OF assms(1)]
    by (simp add: outcomes_eq start)
  have count: "count_list ?os Invalid = length (filter (\<lambda>p. \<not> accepts p) ps)"
    by (induction ps) auto
  have last: "last_accepted l (zip ps ?os) = (if filter accepts ps = [] then l
      else identifier_of (last (filter accepts ps)))" for l
    by (induction ps arbitrary: l) auto
  obtain r' b' where rs: "read_session callback ps (r, b) = (r', b')" by force
  with ends queue no_cut show ?thesis
    by (simp add: r rs session_ends_def count last start del: reader_register_simps)
qed

end

section \<open>Concurrent calls\<close>

text \<open>A call is \<open>Admitted\<close> between the check of the counter and its increment, \<open>Reading\<close> while gRPC
  owes it a read, and \<open>Finishing\<close> from \<open>Finish\<close> until \<open>OnDone\<close>.\<close>

datatype phase = Admitted | Reading | Finishing

record 'b PublishSystem =
  sy_service :: PublishServiceImpl
  sy_metrics :: MetricsSingleton
  sy_readers :: "nat \<rightharpoonup> phase \<times> AsynchronousReader"
  sy_backend :: 'b

definition set_count :: "int \<Rightarrow> MetricsSingleton \<Rightarrow> 'b PublishSystem \<Rightarrow> 'b PublishSystem" where
  "set_count n m s = s\<lparr>sy_service := (sy_service s)\<lparr>ps_mPublisherCount := n\<rparr>, sy_metrics := m\<rparr>"

definition phase_after :: "AsynchronousReader \<Rightarrow> phase" where
  "phase_after r = (if last (ar_calls r) = StartRead then Reading else Finishing)"

definition count_and_metrics :: "'b PublishSystem \<Rightarrow> int \<times> MetricsSingleton" where
  "count_and_metrics s = (ps_mPublisherCount (sy_service s), sy_metrics s)"

text \<open>The handlers of the calls interleave.  The steps that do not touch the backend: the two parts of a
  constructor, \<open>OnDone\<close>, \<open>OnCancel\<close>, and the first action of \<open>stop\<close>, which every handler can
  observe.  gRPC may report a cancellation at any time once the constructor has returned; it still
  owes the call the read or the \<open>OnDone\<close> it owed before.\<close>

inductive handler_step :: "'b PublishSystem \<Rightarrow> 'b PublishSystem \<Rightarrow> bool" where
  construct: "sy_readers s i = None \<Longrightarrow>
     reader_admit (ps_mOptions (sy_service s)) md (ps_mPublisherCount (sy_service s))
       (ps_mSecured (sy_service s)) = Inr (admitted, r) \<Longrightarrow>
     handler_step s (s\<lparr>sy_readers := (sy_readers s)(i \<mapsto> (if admitted then Admitted else Finishing, r))\<rparr>)"
| register: "sy_readers s i = Some (Admitted, r) \<Longrightarrow>
     reader_register (ps_mKeepRunning (sy_service s)) r (count_and_metrics s) = (r', n, m) \<Longrightarrow>
     handler_step s (set_count n m (s\<lparr>sy_readers := (sy_readers s)(i \<mapsto> (phase_after r', r'))\<rparr>))"
| finished: "sy_readers s i = Some (Finishing, r) \<Longrightarrow> OnDone r (count_and_metrics s) = (n, m) \<Longrightarrow>
     handler_step s (set_count n m (s\<lparr>sy_readers := (sy_readers s)(i := None)\<rparr>))"
| cancelled: "sy_readers s i = Some (ph, r) \<Longrightarrow> ph \<noteq> Admitted \<Longrightarrow>
     handler_step s (s\<lparr>sy_readers := (sy_readers s)(i \<mapsto> (ph, OnCancel r))\<rparr>)"
| stopping: "handler_step s (s\<lparr>sy_service := (sy_service s)\<lparr>ps_mKeepRunning := False\<rparr>\<rparr>)"

text \<open>A read that gRPC completed for call \<open>i\<close>.\<close>

inductive read_step ::
  "(Packet \<Rightarrow> 'b \<Rightarrow> exn option \<times> 'b) \<Rightarrow> nat \<Rightarrow> bool \<Rightarrow> Packet \<Rightarrow> 'b PublishSystem \<Rightarrow> 'b PublishSystem \<Rightarrow> bool"
  for cb i ok p where
  read: "sy_readers s i = Some (Reading, r) \<Longrightarrow>
     OnReadDone cb (ps_mKeepRunning (sy_service s)) ok p (r, sy_backend s) = (r', b) \<Longrightarrow>
     read_step cb i ok p s
       (s\<lparr>sy_readers := (sy_readers s)(i \<mapsto> (phase_after r', r')), sy_backend := b\<rparr>)"

inductive_cases read_stepE: "read_step cb i ok p s s'"

inductive publish_step ::
  "(Packet \<Rightarrow> 'b \<Rightarrow> exn option \<times> 'b) \<Rightarrow> 'b PublishSystem \<Rightarrow> 'b PublishSystem \<Rightarrow> bool" for cb where
  handler: "handler_step s s' \<Longrightarrow> publish_step cb s s'"
| read_done: "read_step cb i ok p s s' \<Longrightarrow> publish_step cb s s'"

inductive publish_reachable ::
  "(Packet \<Rightarrow> 'b \<Rightarrow> exn option \<times> 'b) \<Rightarrow> 'b PublishSystem \<Rightarrow> bool" for cb where
  started: "start_listening build (p, m) = Some (Inr (sy_service s, sy_metrics s)) \<Longrightarrow>
     sy_readers s = Map.empty \<Longrightarrow> publish_reachable cb s"
| stepped: "publish_reachable cb s \<Longrightarrow> publish_step cb s s' \<Longrightarrow> publish_reachable cb s'"

text \<open>The calls a handler may have made, by phase.\<close>

definition protocol :: "phase \<times> AsynchronousReader \<Rightarrow> bool" where
  "protocol = (\<lambda>(ph, r). case ph of
     Admitted \<Rightarrow> ar_calls r = [] \<and> \<not> ar_mRegistered r
   | Reading \<Rightarrow> ar_calls r \<noteq> [] \<and> set (ar_calls r) = {StartRead} \<and> ar_mRegistered r
   | Finishing \<Rightarrow> (\<exists>cs c m. ar_calls r = cs @ [Finish c m] \<and> set cs \<subseteq> {StartRead}))"

definition registered :: "'b PublishSystem \<Rightarrow> nat set" where
  "registered s = {i. \<exists>ph r. sy_readers s i = Some (ph, r) \<and> ar_mRegistered r}"

definition publish_inv :: "'b PublishSystem \<Rightarrow> bool" where
  "publish_inv s \<longleftrightarrow> finite (dom (sy_readers s)) \<and>
     ps_mPublisherCount (sy_service s) = int (card (registered s)) \<and>
     (\<forall>i x. sy_readers s i = Some x \<longrightarrow> protocol x) \<and>
     0 \<le> mPublishServiceUtilization (sy_metrics s) \<and> mPublishServiceUtilization (sy_metrics s) \<le> 1"

lemma registered_update:
  assumes "finite (dom (sy_readers s))"
  shows "card (registered (s\<lparr>sy_readers := (sy_readers s)(i \<mapsto> (ph, r))\<rparr>)) =
    (if ar_mRegistered r then (if i \<in> registered s then card (registered s) else Suc (card (registered s)))
     else card (registered s - {i}))"
proof -
  have "registered (s\<lparr>sy_readers := (sy_readers s)(i \<mapsto> (ph, r))\<rparr>) =
      (if ar_mRegistered r then insert i (registered s) else registered s - {i})"
    by (auto simp: registered_def)
  moreover have "finite (registered s)"
    by (rule finite_subset [OF _ assms]) (auto simp: registered_def)
  ultimately show ?thesis by (simp add: insert_absorb)
qed

lemma registered_remove:
  assumes "finite (dom (sy_readers s))"
  shows "card (registered (s\<lparr>sy_readers := (sy_readers s)(i := None)\<rparr>)) =
    (if i \<in> registered s then card (registered s) - 1 else card (registered s))"
proof -
  have "registered (s\<lparr>sy_readers := (sy_readers s)(i := None)\<rparr>) = registered s - {i}"
    by (auto simp: registered_def)
  moreover have "finite (registered s)"
    by (rule finite_subset [OF _ assms]) (auto simp: registered_def)
  ultimately show ?thesis by (simp add: card_Diff_singleton_if)
qed

lemma set_count_simps [simp]:
  "sy_readers (set_count n m s) = sy_readers s" "registered (set_count n m s) = registered s"
  "ps_mPublisherCount (sy_service (set_count n m s)) = n" "sy_metrics (set_count n m s) = m"
  by (simp_all add: set_count_def registered_def)

lemma registered_other_fields [simp]:
  "registered (s\<lparr>sy_backend := b\<rparr>) = registered s" "registered (s\<lparr>sy_service := p\<rparr>) = registered s"
  by (simp_all add: registered_def)

lemma utilization_clamped:
  "0 \<le> mPublishServiceUtilization (updatePublishServiceUtilization u m) \<and>
   mPublishServiceUtilization (updatePublishServiceUtilization u m) \<le> 1"
  by (simp add: updatePublishServiceUtilization_def)

lemma protocol_after_call:
  assumes "protocol (Reading, r)" "ar_calls r' = ar_calls r @ [c]" "ar_mRegistered r'"
  shows "protocol (phase_after r', r')"
proof (cases c)
  case StartRead
  with assms show ?thesis by (auto simp: protocol_def phase_after_def)
next
  case (Finish x m)
  with assms show ?thesis by (auto simp: protocol_def phase_after_def)
qed

lemma registeredI: "sy_readers s i = Some (ph, r) \<Longrightarrow> i \<in> registered s \<longleftrightarrow> ar_mRegistered r"
  by (simp add: registered_def)

lemma publish_invD:
  assumes "publish_inv s"
  shows "finite (dom (sy_readers s))" "ps_mPublisherCount (sy_service s) = int (card (registered s))"
    "sy_readers s i = Some x \<Longrightarrow> protocol x"
    "0 \<le> mPublishServiceUtilization (sy_metrics s) \<and> mPublishServiceUtilization (sy_metrics s) \<le> 1"
  using assms unfolding publish_inv_def by blast+

lemma inv_construct:
  assumes inv: "publish_inv s" and i: "sy_readers s i = None"
    and admit: "reader_admit options md n secured = Inr (admitted, r)"
  shows "publish_inv (s\<lparr>sy_readers := (sy_readers s)(i \<mapsto> (if admitted then Admitted else Finishing, r))\<rparr>)"
proof -
  note r = reader_admit_Inr [OF admit]
  have "protocol (if admitted then Admitted else Finishing, r)"
    using r by (cases admitted) (auto simp: protocol_def)
  moreover have "registered s - {i} = registered s" using i by (auto simp: registered_def)
  ultimately show ?thesis
    using inv r(1) registered_update [OF publish_invD(1) [OF inv]]
    by (auto simp: publish_inv_def)
qed

lemma inv_register:
  assumes inv: "publish_inv s" and i: "sy_readers s i = Some (Admitted, r)"
    and reg: "reader_register k r (count_and_metrics s) = (r', n, m)"
  shows "publish_inv (set_count n m (s\<lparr>sy_readers := (sy_readers s)(i \<mapsto> (phase_after r', r'))\<rparr>))"
proof -
  have r: "ar_calls r = []" "\<not> ar_mRegistered r"
    using publish_invD(3) [OF inv i] by (simp_all add: protocol_def)
  have r': "r' = call (if k then StartRead else Finish OK []) (r\<lparr>ar_mRegistered := True\<rparr>)"
    and n: "n = ps_mPublisherCount (sy_service s) + 1"
    using reg by (auto simp: reader_register_def Let_def count_and_metrics_def)
  have m: "0 \<le> mPublishServiceUtilization m \<and> mPublishServiceUtilization m \<le> 1"
    using reg utilization_clamped by (auto simp: reader_register_def count_and_metrics_def Let_def)
  have "protocol (phase_after r', r')"
    by (cases k) (auto simp: protocol_def phase_after_def r' r(1))
  moreover have "i \<notin> registered s" using registeredI [OF i] r(2) by simp
  moreover have "ar_mRegistered r'" by (simp add: r')
  ultimately show ?thesis
    using inv n m registered_update [OF publish_invD(1) [OF inv]]
    by (auto simp: publish_inv_def)
qed

lemma inv_read_done:
  assumes inv: "publish_inv s" and i: "sy_readers s i = Some (Reading, r)"
    and d: "OnReadDone cb k ok p (r, sy_backend s) = (r', b)"
  shows "publish_inv (s\<lparr>sy_readers := (sy_readers s)(i \<mapsto> (phase_after r', r')), sy_backend := b\<rparr>)"
proof -
  have r: "protocol (Reading, r)" "ar_mRegistered r"
    using publish_invD(3) [OF inv i] by (simp_all add: protocol_def)
  obtain c where c: "ar_calls r' = ar_calls r @ [c]" "ar_mRegistered r'"
    using OnReadDone_one_call [of cb k ok p r "sy_backend s"] d r(2) by auto
  have "i \<in> registered s" using registeredI [OF i] r(2) by simp
  with inv c(2) protocol_after_call [OF r(1) c] registered_update [OF publish_invD(1) [OF inv]]
  show ?thesis by (auto simp: publish_inv_def)
qed

lemma inv_finished:
  assumes inv: "publish_inv s" and i: "sy_readers s i = Some (Finishing, r)"
    and d: "OnDone r (count_and_metrics s) = (n, m)"
  shows "publish_inv (set_count n m (s\<lparr>sy_readers := (sy_readers s)(i := None)\<rparr>))"
proof -
  have n: "n = (if ar_mRegistered r then ps_mPublisherCount (sy_service s) - 1
                else ps_mPublisherCount (sy_service s))"
    using d by (auto simp: OnDone_def count_and_metrics_def Let_def split: if_splits)
  have m: "0 \<le> mPublishServiceUtilization m \<and> mPublishServiceUtilization m \<le> 1"
    using d utilization_clamped publish_invD(4) [OF inv]
    by (auto simp: OnDone_def count_and_metrics_def Let_def split: if_splits)
  have "finite (registered s)"
    by (rule finite_subset [OF _ publish_invD(1) [OF inv]]) (auto simp: registered_def)
  then have "ar_mRegistered r \<Longrightarrow> 0 < card (registered s)"
    using registeredI [OF i] by (auto simp: card_gt_0_iff)
  with n m inv registeredI [OF i] registered_remove [OF publish_invD(1) [OF inv]]
  show ?thesis by (auto simp: publish_inv_def)
qed

lemma inv_cancelled:
  assumes inv: "publish_inv s" and i: "sy_readers s i = Some (ph, r)" and ph: "ph \<noteq> Admitted"
  shows "publish_inv (s\<lparr>sy_readers := (sy_readers s)(i \<mapsto> (ph, OnCancel r))\<rparr>)"
proof -
  have keeps: "OnCancel r = r" by (simp add: OnCancel_def)
  have "protocol (ph, r)" using publish_invD(3) [OF inv i] .
  moreover have "ar_mRegistered r \<longleftrightarrow> i \<in> registered s" using registeredI [OF i] by simp
  ultimately show ?thesis
    using inv registered_update [OF publish_invD(1) [OF inv]] by (auto simp: publish_inv_def keeps)
qed

lemma handler_step_inv: "handler_step s s' \<Longrightarrow> publish_inv s \<Longrightarrow> publish_inv s'"
proof (induction rule: handler_step.induct)
  case (cancelled s i ph r)
  then show ?case by (blast intro: inv_cancelled)
next
  case (stopping s)
  then show ?case by (simp add: publish_inv_def)
qed (simp_all only: inv_construct inv_register inv_finished)

lemma read_step_inv: "read_step cb i ok p s s' \<Longrightarrow> publish_inv s \<Longrightarrow> publish_inv s'"
  by (erule read_stepE) (simp only: inv_read_done)

lemma publish_step_inv: "publish_step cb s s' \<Longrightarrow> publish_inv s \<Longrightarrow> publish_inv s'"
  by (induction rule: publish_step.induct) (blast intro: handler_step_inv read_step_inv)+

lemma start_listening_Inr:
  "start_listening build (p, m) = Some (Inr (p', m')) \<Longrightarrow>
   ps_mPublisherCount p' = 0 \<and> ps_mKeepRunning p' \<and> ps_mServerStarted p' \<and>
   m' = updatePublishServiceUtilization 0 m"
  by (auto simp: start_listening_def Let_def split: sum.splits if_splits)

lemma publish_reachable_inv: "publish_reachable cb s \<Longrightarrow> publish_inv s"
proof (induction rule: publish_reachable.induct)
  case (started build p m s)
  note start_listening_Inr [OF started(1)]
  moreover have "registered s = {}" using started(2) by (simp add: registered_def)
  ultimately show ?case
    using started(2) utilization_clamped by (simp add: publish_inv_def)
qed (rule publish_step_inv)

section \<open>Properties\<close>

text \<open>C29.  Admission.  A call that finds room and (on a secured service with a non-empty token)
  presents the token is registered, counted and told to read (or finished, when the server is
  stopping); otherwise the call is finished with the matching status and nothing is counted.  In
  every case the constructor makes exactly one call on the reactor.\<close>

theorem publish_admission:
  assumes "mHasGRPCOptions (ps_mOptions p)"
  shows "\<exists>r p' m'. Publish md (p, m) = Inr (r, p', m') \<and>
    (if mMaximumPublishers (ps_mOptions p) \<le> ps_mPublisherCount p
     then p' = p \<and> m' = m \<and> ar_calls r = [Finish RESOURCE_EXHAUSTED ''Maximum publisher limit reached'']
     else if \<not> authorized (ps_mOptions p) (ps_mSecured p) md
     then p' = p \<and> m' = m \<and> ar_calls r = [Finish UNAUTHENTICATED ''Invalid access token'']
     else p' = p\<lparr>ps_mPublisherCount := ps_mPublisherCount p + 1\<rparr> \<and> ar_mRegistered r \<and>
          ar_calls r = [if ps_mKeepRunning p then StartRead else Finish OK []])"
  by (auto simp: Publish_def reader_admit_cases [OF assms] reader_register_def Let_def)

definition demo_publish_options :: PublishServiceOptions where
  "demo_publish_options = setGRPCOptions
     (GRPCServerOptions_init\<lparr>mAccessToken := Some ''secret'', mServerKey := Some ''key'',
        mServerCertificate := Some ''cert''\<rparr>)
     (PublishServiceOptions_init\<lparr>mMaximumPublishers := 1, mMaximumConsecutiveInvalidMessages := 1\<rparr>)"

definition demo_service :: PublishServiceImpl where
  "demo_service = \<lparr>ps_mOptions = demo_publish_options,
     ps_mServer = Some (server_config demo_publish_options (mGRPCOptions demo_publish_options)),
     ps_mPublisherCount = 0, ps_mKeepRunning = True, ps_mServerStarted = True, ps_mSecured = True\<rparr>"

lemma demo_publish_options_simps [simp]:
  "mHasGRPCOptions demo_publish_options" "mMaximumPublishers demo_publish_options = 1"
  "mMaximumConsecutiveInvalidMessages demo_publish_options = 1"
  "mAccessToken (mGRPCOptions demo_publish_options) = Some ''secret''"
  by (simp_all add: demo_publish_options_def setGRPCOptions_def)

theorem publish_admission_witness:
  "\<exists>r p' m'. Publish [(''x-custom-auth-token'', ''guess'')] (demo_service, MetricsSingleton_init) =
     Inr (r, p', m') \<and> p' = demo_service \<and> ar_calls r = [Finish UNAUTHENTICATED ''Invalid access token'']"
  using publish_admission [of demo_service "[(''x-custom-auth-token'', ''guess'')]" MetricsSingleton_init]
  by (auto simp: demo_service_def authorized_def)

text \<open>C7.  Sessions.  On a running server, a client that sends fewer than 2^32 packets is
  disconnected with \<open>INVALID_ARGUMENT\<close> exactly when, between two accepted packets, more packets are
  rejected as invalid than the option allows (packets that fail for another reason neither count
  nor reset the count).  Otherwise the call ends with \<open>OK\<close> and the response has the number of
  packets, the number of invalid ones, and the last accepted packet's stream and number.  Exactly the allowed
  number is tolerated, where \<open>publishServiceOptions.hpp\<close> says that the client is purged after it.\<close>

theorem session_accounting:
  assumes "length ps < 2 ^ 32"
  shows "let os = outcomes callback ps b;
        r = fst (reader_register True (reader_init options) (n, m));
        r' = fst (read_session callback ps (r, b)) in
    if invalid_run (unat (mMaximumConsecutiveInvalidMessages options)) os
    then \<exists>msg. last (ar_calls r') = Finish INVALID_ARGUMENT msg
    else last (ar_calls r') = Finish OK [] \<and>
         pr_total_packets (ar_mResponse r') = of_nat (length ps) \<and>
         pr_invalid_packets (ar_mResponse r') = of_nat (count_list os Invalid) \<and>
         pr_last_packet_identifier (ar_mResponse r') =
           Some (last_accepted empty_last_packet (zip ps os))"
proof -
  have len: "length (outcomes callback xs b'') = length xs" for xs b''
    by (induction xs arbitrary: b'') auto
  let ?r = "fst (reader_register True (reader_init options) (n, m))" and ?os = "outcomes callback ps b"
  have start: "ar_mInvalidMessageCounter ?r = 0" "ar_mTotalPackets ?r = 0" "ar_mInvalidPackets ?r = 0"
    "ar_mMaximumConsecutiveInvalidMessages ?r = mMaximumConsecutiveInvalidMessages options"
    "ar_mLastPacketIdentifier ?r = empty_last_packet"
    by simp_all
  have "session_ends ?r (zip ps ?os) (fst (read_session callback ps (?r, b)))"
    by (rule session_ends_read_session) (use assms(1) start in auto)
  then show ?thesis
    using invalid_run_first [of _ ?os]
    by (auto simp: session_ends_def start len disconnects_iff Let_def)
qed

text \<open>A callback that rejects the packets without a data type.\<close>

definition demo_callback :: "Packet \<Rightarrow> nat \<Rightarrow> exn option \<times> nat" where
  "demo_callback p n = (if pk_data_type p = None then (Some (InvalidArgument ''bad''), n) else (None, n + 1))"

theorem session_accounting_witness:
  "(\<exists>msg. last (ar_calls (fst (read_session demo_callback [empty_packet, empty_packet]
     (fst (reader_register True (reader_init demo_publish_options) (0, MetricsSingleton_init)), 0)))) =
     Finish INVALID_ARGUMENT msg) \<and>
   last (ar_calls (fst (read_session demo_callback [empty_packet]
     (fst (reader_register True (reader_init demo_publish_options) (0, MetricsSingleton_init)), 0)))) =
     Finish OK []"
proof
  have "outcomes demo_callback [empty_packet, empty_packet] 0 = [Invalid, Invalid]"
    by (simp add: demo_callback_def empty_packet_def outcome_of_def)
  moreover have "invalid_run 1 [Invalid, Invalid]"
    by (simp add: invalid_run_Cons)
  ultimately show "\<exists>msg. last (ar_calls (fst (read_session demo_callback [empty_packet, empty_packet]
     (fst (reader_register True (reader_init demo_publish_options) (0, MetricsSingleton_init)), 0)))) =
     Finish INVALID_ARGUMENT msg"
    using session_accounting [of "[empty_packet, empty_packet]" demo_callback 0 demo_publish_options 0
        MetricsSingleton_init] by (simp add: Let_def)
next
  have "outcomes demo_callback [empty_packet] 0 = [Invalid]"
    by (simp add: demo_callback_def empty_packet_def outcome_of_def)
  moreover have "\<not> invalid_run 1 [Invalid]"
    by (simp add: invalid_run_Cons invalid_run_Nil)
  ultimately show "last (ar_calls (fst (read_session demo_callback [empty_packet]
     (fst (reader_register True (reader_init demo_publish_options) (0, MetricsSingleton_init)), 0)))) =
     Finish OK []"
    using session_accounting [of "[empty_packet]" demo_callback 0 demo_publish_options 0
        MetricsSingleton_init] by (simp add: Let_def)
qed

definition demo_system :: "(nat \<rightharpoonup> phase \<times> AsynchronousReader) \<Rightarrow> int \<Rightarrow> MetricsSingleton \<Rightarrow> nat PublishSystem" where
  "demo_system readers n m = \<lparr>sy_service = demo_service\<lparr>ps_mPublisherCount := n\<rparr>, sy_metrics = m,
     sy_readers = readers, sy_backend = 0\<rparr>"

abbreviation demo_metrics :: "real \<Rightarrow> MetricsSingleton" where
  "demo_metrics u \<equiv> updatePublishServiceUtilization u MetricsSingleton_init"

lemma demo_started: "publish_reachable demo_callback (demo_system Map.empty 0 (demo_metrics 0))"
proof (rule publish_reachable.started)
  show "start_listening (\<lambda>c. True) (demo_service, MetricsSingleton_init) =
      Some (Inr (sy_service (demo_system Map.empty 0 (demo_metrics 0)),
                 sy_metrics (demo_system Map.empty 0 (demo_metrics 0))))"
    by (simp add: start_listening_def demo_service_def demo_system_def getGRPCOptions_def Let_def
        server_config_def demo_publish_options_def setGRPCOptions_def)
qed (simp add: demo_system_def)

text \<open>The limit on publishers is not enforced between concurrent calls: the check and the
  increment of the counter are separate, so a service limited to one publisher can register two.\<close>

lemma publisher_limit_race:
  "\<exists>s. publish_reachable demo_callback s \<and> mMaximumPublishers (ps_mOptions (sy_service s)) = 1 \<and>
       ps_mPublisherCount (sy_service s) = 2 \<and> card (registered s) = 2 \<and>
       (\<exists>r. sy_readers s 0 = Some (Reading, r))"
proof -
  let ?md = "[(''x-custom-auth-token'', ''secret'')]" and ?r = "reader_init demo_publish_options"
  let ?s0 = "demo_system Map.empty 0 (demo_metrics 0)"
  have admit: "reader_admit demo_publish_options ?md 0 True = Inr (True, ?r)"
    by (simp add: reader_admit_cases authorized_def)
  let ?s1 = "?s0\<lparr>sy_readers := (sy_readers ?s0)(0 \<mapsto> (Admitted, ?r))\<rparr>"
  have s1: "publish_reachable demo_callback ?s1"
    using handler_step.construct [of ?s0 0 ?md True ?r] demo_started admit
    by (auto intro: publish_reachable.stepped publish_step.handler simp: demo_system_def demo_service_def)
  let ?s2 = "?s1\<lparr>sy_readers := (sy_readers ?s1)(1 \<mapsto> (Admitted, ?r))\<rparr>"
  have s2: "publish_reachable demo_callback ?s2"
    using handler_step.construct [of ?s1 1 ?md True ?r] s1 admit
    by (auto intro: publish_reachable.stepped publish_step.handler simp: demo_system_def demo_service_def)
  obtain r1 n1 m1 where g1: "reader_register True ?r (count_and_metrics ?s2) = (r1, n1, m1)" by (metis prod_cases3)
  then have r1: "ar_mRegistered r1" "n1 = 1"
    by (auto simp: reader_register_def Let_def count_and_metrics_def demo_system_def)
  have reading: "phase_after r1 = Reading"
    using g1 by (auto simp: reader_register_def Let_def phase_after_def call_def split: prod.splits)
  let ?s3 = "set_count n1 m1 (?s2\<lparr>sy_readers := (sy_readers ?s2)(0 \<mapsto> (phase_after r1, r1))\<rparr>)"
  have s3: "publish_reachable demo_callback ?s3"
    by (rule publish_reachable.stepped [OF s2], rule publish_step.handler, rule handler_step.register)
      (use g1 in \<open>simp_all add: demo_system_def demo_service_def\<close>)
  obtain r2 n2 m2 where g2: "reader_register True ?r (count_and_metrics ?s3) = (r2, n2, m2)" by (metis prod_cases3)
  then have r2: "ar_mRegistered r2" "n2 = 2"
    using r1(2) by (auto simp: reader_register_def Let_def count_and_metrics_def)
  let ?s4 = "set_count n2 m2 (?s3\<lparr>sy_readers := (sy_readers ?s3)(1 \<mapsto> (phase_after r2, r2))\<rparr>)"
  have s4: "publish_reachable demo_callback ?s4"
    by (rule publish_reachable.stepped [OF s3], rule publish_step.handler, rule handler_step.register)
      (use g2 in \<open>simp_all add: demo_system_def demo_service_def set_count_def\<close>)
  have "registered ?s4 = {0, 1}"
    using r1(1) r2(1) by (auto simp: registered_def set_count_def demo_system_def split: if_splits)
  then show ?thesis
    using s4 r2(2) reading by (intro exI [of _ ?s4]) (simp add: set_count_def demo_system_def demo_service_def)
qed

text \<open>C8.  Any interleaving of the handlers of any number of calls, cancellations included, from the
  start of the service until the beginning of its stop, keeps the publisher count equal to the number of registered
  readers, keeps the utilization between 0 and 1, and keeps the reactor protocol: reads are requested
  one at a time, \<open>Finish\<close> is called once and last, and only registered readers read.\<close>

theorem publish_system_invariant:
  assumes "publish_reachable callback s"
  shows "ps_mPublisherCount (sy_service s) = int (card (registered s)) \<and>
         0 \<le> mPublishServiceUtilization (sy_metrics s) \<and> mPublishServiceUtilization (sy_metrics s) \<le> 1 \<and>
         (\<forall>i ph r. sy_readers s i = Some (ph, r) \<longrightarrow> protocol (ph, r))"
  using publish_reachable_inv [OF assms] by (simp add: publish_inv_def)

theorem publish_system_invariant_witness:
  "\<exists>s r. publish_reachable demo_callback s \<and> sy_readers s 0 = Some (Reading, OnCancel r) \<and>
     ps_mPublisherCount (sy_service s) = 2 \<and> card (registered s) = 2 \<and>
     mPublishServiceUtilization (sy_metrics s) \<le> 1 \<and> protocol (Reading, OnCancel r)"
proof -
  obtain s r where s: "publish_reachable demo_callback s" "sy_readers s 0 = Some (Reading, r)"
    "ps_mPublisherCount (sy_service s) = 2" using publisher_limit_race by blast
  let ?s = "s\<lparr>sy_readers := (sy_readers s)(0 \<mapsto> (Reading, OnCancel r))\<rparr>"
  have "publish_reachable demo_callback ?s"
    by (rule publish_reachable.stepped [OF s(1)], rule publish_step.handler,
        rule handler_step.cancelled [where ph = Reading]) (simp_all add: s(2))
  moreover have "sy_readers ?s 0 = Some (Reading, OnCancel r)" by simp
  moreover note inv = publish_system_invariant [OF calculation(1)]
  ultimately have "protocol (Reading, OnCancel r)" by blast
  with inv s(3) \<open>publish_reachable demo_callback ?s\<close> show ?thesis
    by (intro exI [of _ ?s] exI [of _ r]) simp
qed

text \<open>Stopping the service clears the running flag, drops the server and zeroes the counter and
  the utilization, whatever readers are alive; a registered reader that gRPC finishes afterwards
  takes the counter below zero.\<close>

lemma stop_service_then_done:
  assumes "ar_mRegistered r" "ps_mServer p = None \<or> ps_mServerStarted p"
  shows "\<exists>p' m'. stop_service (p, m) = (p', m') \<and> \<not> ps_mKeepRunning p' \<and> ps_mServer p' = None \<and>
           ps_mPublisherCount p' = 0 \<and> mPublishServiceUtilization m' = 0 \<and>
           fst (OnDone r (ps_mPublisherCount p', m')) = - 1"
  using assms by (auto simp: stop_service_def OnDone_def updatePublishServiceUtilization_def Let_def)

end
