(* ===== verification/Broker.thy ===== *)
theory Broker
  imports Data_Packet_Store Publish_System
begin

text \<open>
  \<open>src/broker.cpp\<close>.  The members of \<open>BrokerImpl\<close> are the record \<open>Broker\<close>, over the state \<open>'s\<close> of the data
  packet store behind the record \<open>S\<close> of its functions.  A thread is modelled by the pieces of work it
  does between two points where another thread can interfere: the sections under a mutex, the calls
  of the store, and the tests of the atomic flag.  Clock readings are inputs, durations are integer
  counts (of milliseconds where the code compares milliseconds).  Logging is left out.
\<close>

section \<open>State\<close>

text \<open>A \<open>std::future<void>\<close>: its thread runs, it is ready with or without an exception, or its result
  was taken by \<open>get\<close> (using it again raises \<open>std::future_error\<close>).\<close>

datatype future = Pending | Ready "exn option" | Taken

text \<open>Where the propagator thread is inside one round of its loop.\<close>

datatype propagator = Idle | Popped Packet | Published i64 Packet

text \<open>Where the thread that calls \<open>stop\<close> is before it waits for the others.\<close>

datatype stopper = NotStopping | ServiceStopped | LoopsStopped | ShutdownAsked

record 's Broker =
  br_mOptions :: BrokerOptions
  br_mDataPacketStore :: 's
  br_mPublishService :: PublishServiceImpl
  br_mMetrics :: MetricsSingleton
  br_mImportQueue :: "Packet list"
  br_mDataPacketStoreQueue :: "(i64 \<times> Packet) list"
  br_mPublishQueue :: "Packet list"
  br_mFuturesMap :: "(string \<times> future) list"     \<comment> \<open>in key order\<close>
  br_mGlobalSequenceNumber :: u64
  br_mMaximumImportQueueSize :: nat
  br_mKeepRunning :: bool
  br_mShutdownRequested :: bool
  br_propagator :: propagator
  br_stopper :: stopper

section \<open>Construction\<close>

definition hasPublishServiceOptions :: "BrokerOptions \<Rightarrow> bool" where
  "hasPublishServiceOptions p = mHasPublishServiceOptions p"

definition hasSubscribeServiceOptions :: "BrokerOptions \<Rightarrow> bool" where
  "hasSubscribeServiceOptions p = mHasSubscribeServiceOptions p"

definition Broker_construct ::
  "'s IDataPacketStore \<Rightarrow> BrokerOptions \<Rightarrow> 's option \<Rightarrow> MetricsSingleton \<Rightarrow> 's Broker result" where
  "Broker_construct S options dataPacketStore metrics =
     (if \<not> hasPublishServiceOptions options
      then Inl (InvalidArgument ''Publish service options not set'')
      else if \<not> hasSubscribeServiceOptions options
      then Inl (InvalidArgument ''Subscribe service options not set'')
      else (case dataPacketStore of
         None \<Rightarrow> Inl (InvalidArgument ''Data packet store is null'')
       | Some store \<Rightarrow>
      (case st_getGlobalSequenceNumber S store of Inl e \<Rightarrow> Inl e | Inr globalSequenceNumber \<Rightarrow>
      (case getPublishServiceOptions options of Inl e \<Rightarrow> Inl e | Inr publishOptions \<Rightarrow>
      (case PublishService_construct publishOptions of Inl e \<Rightarrow> Inl e | Inr publishService \<Rightarrow>
        Inr \<lparr>br_mOptions = options, br_mDataPacketStore = store,
             br_mPublishService = publishService, br_mMetrics = metrics, br_mImportQueue = [],
             br_mDataPacketStoreQueue = [], br_mPublishQueue = [], br_mFuturesMap = [],
             br_mGlobalSequenceNumber = globalSequenceNumber, br_mMaximumImportQueueSize = 8192,
             br_mKeepRunning = True, br_mShutdownRequested = False, br_propagator = Idle,
             br_stopper = NotStopping\<rparr>)))))"

section \<open>Starting and checking the threads\<close>

fun insert_or_assign :: "string \<Rightarrow> 'v \<Rightarrow> (string \<times> 'v) list \<Rightarrow> (string \<times> 'v) list" where
  "insert_or_assign k v [] = [(k, v)]"
| "insert_or_assign k v ((k', v') # m) =
     (if k = k' then (k, v) # m
      else if k < k' then (k, v) # (k', v') # m
      else (k', v') # insert_or_assign k v m)"

text \<open>Neither the publish service nor the thread that writes to the store is started.  A second start
  would wait, in the assignment to the map, for the threads of the first; \<open>start\<close> is used on a
  broker without threads.\<close>

definition start :: "'s Broker \<Rightarrow> 's Broker" where
  "start b = b\<lparr>br_mKeepRunning := True,
     br_mFuturesMap := insert_or_assign ''PacketPropagatorThread'' Pending
       (insert_or_assign ''DataStoreTruncatorThread'' Pending
         (insert_or_assign ''DataStoreCompactorThread'' Pending (br_mFuturesMap b)))\<rparr>"

text \<open>\<open>get\<close> on a future: \<open>None\<close> while it blocks.\<close>

fun future_get :: "future \<Rightarrow> (exn option \<times> future) option" where
  "future_get Pending = None"
| "future_get (Ready e) = Some (e, Taken)"
| "future_get Taken = Some (Some (OtherException ''No associated state''), Taken)"

text \<open>One round of the loop of \<open>checkFuturesOkay\<close>; waiting on a future that is not ready times out.\<close>

definition check_future :: "bool \<times> (string \<times> future) list \<Rightarrow> string \<times> future \<Rightarrow> bool \<times> (string \<times> future) list" where
  "check_future = (\<lambda>(isOkay, checked) (name, f).
     case future_get f of
       None \<Rightarrow> (isOkay, checked @ [(name, f)])
     | Some (None, f) \<Rightarrow> (isOkay, checked @ [(name, f)])
     | Some (Some e, f) \<Rightarrow> (False, checked @ [(name, f)]))"

definition checkFuturesOkay :: "'s Broker \<Rightarrow> bool \<times> 's Broker" where
  "checkFuturesOkay b =
     (let isOkay = False;
          (isOkay, futures) = foldl check_future (isOkay, []) (br_mFuturesMap b)
      in (isOkay, b\<lparr>br_mFuturesMap := futures\<rparr>))"

section \<open>Compaction and truncation\<close>

text \<open>One round of \<open>compactDataStore\<close> before it sleeps, at time \<open>now\<close>.\<close>

definition compact_round ::
  "'s IDataPacketStore \<Rightarrow> i64 \<Rightarrow> 's Broker \<Rightarrow> unit result \<times> 's Broker" where
  "compact_round S now b =
     (let retentionDuration = of_int (mRetentionDuration (br_mOptions b) * 1000000000);
          dropBefore = now - retentionDuration;
          (r, store) = st_compact S dropBefore (br_mDataPacketStore b)
      in (r, b\<lparr>br_mDataPacketStore := store\<rparr>))"

text \<open>The inner loop of \<open>truncateDataStore\<close>: the total is a C++ \<open>int\<close>, the chunk size is converted to
  \<open>size_t\<close>.  \<open>None\<close> when the loop does not end.\<close>

partial_function (option) truncate_loop ::
  "'s IDataPacketStore \<Rightarrow> u64 \<Rightarrow> u64 \<Rightarrow> u32 \<Rightarrow> 's \<Rightarrow> (u32 result \<times> 's) option" where
  "truncate_loop S desiredSizeInBytes chunkSize nTotalTruncated store =
     (case st_getSizeInBytes S store of
        Inl e \<Rightarrow> Some (Inl e, store)
      | Inr sizeInBytes \<Rightarrow>
          if sizeInBytes > desiredSizeInBytes
          then (case st_truncateOldest S chunkSize store of
                  (Inl e, store) \<Rightarrow> Some (Inl e, store)
                | (Inr nTruncated, store) \<Rightarrow>
                    if nTruncated = 0 then Some (Inr nTotalTruncated, store)
                    else truncate_loop S desiredSizeInBytes chunkSize
                           (nTotalTruncated + ucast nTruncated) store)
          else Some (Inr nTotalTruncated, store))"

definition minimumInterval :: int where "minimumInterval = 10"

definition next_interval :: "int \<Rightarrow> u32 \<Rightarrow> int \<Rightarrow> int" where
  "next_interval initialInterval nTotalTruncated currentInterval =
     (if sint nTotalTruncated > 0 then max minimumInterval (currentInterval div 2)
      else min initialInterval (currentInterval * 2))"

text \<open>One round of \<open>truncateDataStore\<close> before it sleeps, with its current interval.\<close>

definition truncate_round ::
  "'s IDataPacketStore \<Rightarrow> int \<Rightarrow> 's Broker \<Rightarrow> (int result \<times> 's Broker) option" where
  "truncate_round S currentInterval b =
     (let chunkSize = of_int (mTruncationChunkSize (br_mOptions b));
          initialInterval = mTruncationBaseInterval (br_mOptions b) * 1000
      in (case mDesiredMaximumDataStoreSizeInBytes (br_mOptions b) of
            None \<Rightarrow> Some (Inr currentInterval, b)
          | Some desiredSizeInBytes \<Rightarrow>
              (case truncate_loop S desiredSizeInBytes chunkSize 0 (br_mDataPacketStore b) of
                 None \<Rightarrow> None
               | Some (Inl e, store) \<Rightarrow> Some (Inl e, b\<lparr>br_mDataPacketStore := store\<rparr>)
               | Some (Inr nTotalTruncated, store) \<Rightarrow>
                   Some (Inr (next_interval initialInterval nTotalTruncated currentInterval),
                         b\<lparr>br_mDataPacketStore := store\<rparr>))))"

section \<open>Importing packets\<close>

text \<open>The two loops that pop a queue while it is too long, with the number of packets popped.\<close>

fun pop_while :: "nat \<Rightarrow> 'p list \<Rightarrow> nat \<Rightarrow> 'p list \<times> nat" where
  "pop_while maximumSize [] nPopped =
     ([], nPopped)"
| "pop_while maximumSize (p # q) nPopped =
     (if length (p # q) \<ge> maximumSize then pop_while maximumSize q (nPopped + 1) else (p # q, nPopped))"

text \<open>One step, although only the queue is changed under the mutex: the counters before and after it are
  atomic increments of metrics that no other step reads, so they commute with the steps in between.\<close>

definition addPacketCallback :: "Packet \<Rightarrow> 's Broker \<Rightarrow> exn option \<times> 's Broker" where
  "addPacketCallback packet b =
     (let b = b\<lparr>br_mMetrics := incrementTotalNumberOfPacketsReceived (br_mMetrics b)\<rparr>
      in (case isValid packet of
            Inl error \<Rightarrow>
              (Some (InvalidArgument (''Input packet invalid: '' @ error)),
               b\<lparr>br_mMetrics := incrementNumberOfInvalidPacketsReceived (br_mMetrics b)\<rparr>)
          | Inr _ \<Rightarrow>
              let (queue, nPopped) =
                    (if length (br_mImportQueue b) > br_mMaximumImportQueueSize b
                     then pop_while (br_mMaximumImportQueueSize b) (br_mImportQueue b) 0
                     else (br_mImportQueue b, 0));
                  b = b\<lparr>br_mImportQueue := queue @ [packet]\<rparr>;
                  metrics = (if nPopped > 0
                             then incrementNumberOfPacketsPoppedFromImportQueue (int nPopped) (br_mMetrics b)
                             else br_mMetrics b)
              in (None, b\<lparr>br_mMetrics := incrementNumberOfInvalidPacketsReceived metrics\<rparr>)))"

section \<open>Propagating packets\<close>

definition mMaximumDataStoreQueueSize :: nat where "mMaximumDataStoreQueueSize = 4096"
definition mMaximumPublishQueueStoreSize :: nat where "mMaximumPublishQueueStoreSize = 4096"

text \<open>The round of \<open>propagatePacket\<close> in three pieces: the section under the import mutex, the numbering
  of the packet with the section under the publish mutex, and the section under the store mutex.
  \<open>mGlobalSequenceNumber\<close> is used by this thread only.\<close>

definition propagate_pop :: "'s Broker \<Rightarrow> 's Broker" where
  "propagate_pop b =
     (case br_mImportQueue b of
        [] \<Rightarrow> b
      | packet # queue \<Rightarrow> b\<lparr>br_mImportQueue := queue, br_propagator := Popped packet\<rparr>)"

definition propagate_publish :: "i64 \<Rightarrow> Packet \<Rightarrow> 's Broker \<Rightarrow> 's Broker" where
  "propagate_publish now packet b =
     (let b = b\<lparr>br_mGlobalSequenceNumber := br_mGlobalSequenceNumber b + 1\<rparr>;
          packet = set_sequence_number packet (br_mGlobalSequenceNumber b);
          (queue, nPoppedFromPublishQueue) =
            pop_while mMaximumPublishQueueStoreSize (br_mPublishQueue b) 0
      in b\<lparr>br_mPublishQueue := queue @ [packet], br_propagator := Published now packet\<rparr>)"

definition propagate_store :: "i64 \<Rightarrow> Packet \<Rightarrow> 's Broker \<Rightarrow> 's Broker" where
  "propagate_store now packet b =
     (let receiptTimeAndPacket = (now, packet);
          (queue, nPoppedFromDataStoreQueue) =
            pop_while mMaximumDataStoreQueueSize (br_mDataPacketStoreQueue b) 0
      in b\<lparr>br_mDataPacketStoreQueue := queue @ [receiptTimeAndPacket], br_propagator := Idle\<rparr>)"

text \<open>A whole round with nothing in between.\<close>

definition propagatePacket :: "i64 \<Rightarrow> 's Broker \<Rightarrow> 's Broker" where
  "propagatePacket now b =
     (let b = propagate_pop b
      in (case br_propagator b of
            Popped packet \<Rightarrow>
              let b = propagate_publish now packet b
              in (case br_propagator b of
                    Published t packet \<Rightarrow> propagate_store t packet b
                  | _ \<Rightarrow> b)
          | _ \<Rightarrow> b))"

section \<open>The two threads that are written but not started\<close>

text \<open>A round of \<open>publishPackets\<close>: the packet it takes goes nowhere (the body of the \<open>try\<close> is empty).\<close>

definition publishPackets :: "'s Broker \<Rightarrow> 's Broker" where
  "publishPackets b =
     (case br_mPublishQueue b of
        [] \<Rightarrow> b
      | packet # queue \<Rightarrow> b\<lparr>br_mPublishQueue := queue\<rparr>)"

text \<open>The loop of \<open>writePacketsToDataStore\<close> under the store mutex, whose body is commented out, and a
  round of the thread with it.\<close>

partial_function (option) drain_loop :: "(i64 \<times> Packet) list \<Rightarrow> (i64 \<times> Packet) list option" where
  "drain_loop queue = (if queue \<noteq> [] then drain_loop queue else Some queue)"

definition writePacketsToDataStore :: "'s Broker \<Rightarrow> 's Broker option" where
  "writePacketsToDataStore b =
     (case drain_loop (br_mDataPacketStoreQueue b) of
        None \<Rightarrow> None
      | Some queue \<Rightarrow> Some (b\<lparr>br_mDataPacketStoreQueue := queue\<rparr>))"

section \<open>Stopping\<close>

text \<open>\<open>stop\<close> up to the point where it takes the results of the threads.  It takes no mutex, so the other
  threads see each of its actions before the next: stopping the publish service, clearing the flag of
  the loops, asking the sleeping threads to shut down, and flushing the store.\<close>

definition stop_publishing :: "'s Broker \<Rightarrow> 's Broker" where
  "stop_publishing b =
     (let (publishService, metrics) = stop_service (br_mPublishService b, br_mMetrics b)
      in b\<lparr>br_mPublishService := publishService, br_mMetrics := metrics, br_stopper := ServiceStopped\<rparr>)"

definition stop_loops :: "'s Broker \<Rightarrow> 's Broker" where
  "stop_loops b = b\<lparr>br_mKeepRunning := False, br_stopper := LoopsStopped\<rparr>"

definition ask_shutdown :: "'s Broker \<Rightarrow> 's Broker" where
  "ask_shutdown b = b\<lparr>br_mShutdownRequested := True, br_stopper := ShutdownAsked\<rparr>"

definition flush_store :: "'s IDataPacketStore \<Rightarrow> 's Broker \<Rightarrow> 's Broker" where
  "flush_store S b =
     b\<lparr>br_mDataPacketStore := st_flush S (br_mDataPacketStore b), br_stopper := NotStopping\<rparr>"

text \<open>All of it with nothing in between.\<close>

definition stop_signal :: "'s IDataPacketStore \<Rightarrow> 's Broker \<Rightarrow> 's Broker" where
  "stop_signal S b = flush_store S (ask_shutdown (stop_loops (stop_publishing b)))"

text \<open>The last loop: it blocks on a thread that still runs and ends at the first stored exception.\<close>

fun get_futures :: "(string \<times> future) list \<Rightarrow> (exn option \<times> (string \<times> future) list) option" where
  "get_futures [] = Some (None, [])"
| "get_futures ((name, f) # fs) =
     (case future_get f of
        None \<Rightarrow> None
      | Some (Some e, f) \<Rightarrow> Some (Some e, (name, f) # fs)
      | Some (None, f) \<Rightarrow>
          (case get_futures fs of
             None \<Rightarrow> None
           | Some (e, fs) \<Rightarrow> Some (e, (name, f) # fs)))"

definition stop_join :: "'s Broker \<Rightarrow> (exn option \<times> 's Broker) option" where
  "stop_join b =
     (case get_futures (br_mFuturesMap b) of
        None \<Rightarrow> None
      | Some (e, futures) \<Rightarrow> Some (e, b\<lparr>br_mFuturesMap := futures\<rparr>))"

section \<open>The threads together\<close>

text \<open>The steps of the broker's own threads.  The loops test the flag at the start of a round; the calls
  of the truncation loop interleave with everything else (the size it has read may be out of date by
  then, so it is not a condition of the step).  \<open>stop\<close> may be called again, as the destructor does.\<close>

inductive stop_step :: "'s IDataPacketStore \<Rightarrow> 's Broker \<Rightarrow> 's Broker \<Rightarrow> bool" for S where
  stop_service: "br_stopper b = NotStopping \<Longrightarrow> stop_step S b (stop_publishing b)"
| clear_flag: "br_stopper b = ServiceStopped \<Longrightarrow> stop_step S b (stop_loops b)"
| wake_sleepers: "br_stopper b = LoopsStopped \<Longrightarrow> stop_step S b (ask_shutdown b)"
| persist: "br_stopper b = ShutdownAsked \<Longrightarrow> stop_step S b (flush_store S b)"

inductive broker_thread_step :: "'s IDataPacketStore \<Rightarrow> 's Broker \<Rightarrow> 's Broker \<Rightarrow> bool" for S where
  pop: "br_mKeepRunning b \<Longrightarrow> br_propagator b = Idle \<Longrightarrow> broker_thread_step S b (propagate_pop b)"
| publish: "br_propagator b = Popped p \<Longrightarrow> broker_thread_step S b (propagate_publish now p b)"
| enqueue: "br_propagator b = Published t p \<Longrightarrow> broker_thread_step S b (propagate_store t p b)"
| compact: "br_mKeepRunning b \<Longrightarrow> compact_round S now b = (r, b') \<Longrightarrow> broker_thread_step S b b'"
| truncate_chunk: "mDesiredMaximumDataStoreSizeInBytes (br_mOptions b) = Some d \<Longrightarrow>
     st_truncateOldest S (of_int (mTruncationChunkSize (br_mOptions b))) (br_mDataPacketStore b) = (r, s) \<Longrightarrow>
     broker_thread_step S b (b\<lparr>br_mDataPacketStore := s\<rparr>)"
| stop: "stop_step S b b' \<Longrightarrow> broker_thread_step S b b'"

inductive_cases stop_stepE: "stop_step S b b'"
inductive_cases broker_thread_stepE: "broker_thread_step S b b'"

text \<open>The running broker: packets arrive at any time, on the threads of the publish service.\<close>

inductive broker_step :: "'s IDataPacketStore \<Rightarrow> 's Broker \<Rightarrow> 's Broker \<Rightarrow> bool" for S where
  import_packet: "addPacketCallback p b = (e, b') \<Longrightarrow> broker_step S b b'"
| thread: "broker_thread_step S b b' \<Longrightarrow> broker_step S b b'"

inductive broker_reachable ::
  "'s IDataPacketStore \<Rightarrow> BrokerOptions \<Rightarrow> 's \<Rightarrow> 's Broker \<Rightarrow> bool" for S options store where
  constructed: "Broker_construct S options (Some store) m = Inr b \<Longrightarrow>
     broker_reachable S options store (start b)"
| stepped: "broker_reachable S options store b \<Longrightarrow> broker_step S b b' \<Longrightarrow>
     broker_reachable S options store b'"

end
