(* ===== verification/Broker_System.thy ===== *)
theory Broker_System
  imports Broker
begin

text \<open>
  Correctness of the broker: the queues stay bounded and are numbered consecutively under every
  interleaving of its threads, truncation ends and adapts its interval within bounds, and what the
  unfinished parts of the code do.
\<close>

section \<open>Bounded queues\<close>

lemma pop_while_drop:
  "0 < n \<Longrightarrow> pop_while n q k = (drop (length q + 1 - n) q, k + (length q + 1 - n))"
proof (induction n q k rule: pop_while.induct)
  case (2 n p q k)
  then show ?case by (cases "n \<le> length (p # q)") (auto simp: Suc_diff_le)
qed simp

lemma length_pop_while: "0 < n \<Longrightarrow> length (fst (pop_while n q k)) = min (length q) (n - 1)"
  by (simp add: pop_while_drop min_def)

lemma propagator_constants [simp]:
  "mMaximumDataStoreQueueSize = 4096" "mMaximumPublishQueueStoreSize = 4096"
  by (simp_all add: mMaximumDataStoreQueueSize_def mMaximumPublishQueueStoreSize_def)

text \<open>What each piece of work does to each member, once and for all.\<close>

lemma addPacketCallback_invalid:
  assumes "isValid p = Inl m"
  shows "addPacketCallback p b = (Some (InvalidArgument (''Input packet invalid: '' @ m)),
    b\<lparr>br_mMetrics := incrementNumberOfInvalidPacketsReceived
       (incrementTotalNumberOfPacketsReceived (br_mMetrics b))\<rparr>)"
  using assms by (simp add: addPacketCallback_def Let_def)

definition overflow :: "'s Broker \<Rightarrow> nat" where
  "overflow b = (if br_mMaximumImportQueueSize b < length (br_mImportQueue b)
     then length (br_mImportQueue b) + 1 - br_mMaximumImportQueueSize b else 0)"

lemma addPacketCallback_valid:
  assumes "isValid p = Inr u" "0 < br_mMaximumImportQueueSize b"
  shows "addPacketCallback p b = (None,
    b\<lparr>br_mImportQueue := drop (overflow b) (br_mImportQueue b) @ [p],
      br_mMetrics := incrementNumberOfInvalidPacketsReceived
       ((if 0 < overflow b then incrementNumberOfPacketsPoppedFromImportQueue (int (overflow b)) else id)
         (incrementTotalNumberOfPacketsReceived (br_mMetrics b)))\<rparr>)"
  using assms by (auto simp: addPacketCallback_def Let_def overflow_def pop_while_drop)

lemma addPacketCallback_frame:
  assumes "addPacketCallback p b = (e, b')"
  shows "br_mOptions b' = br_mOptions b" "br_mDataPacketStore b' = br_mDataPacketStore b"
    "br_mDataPacketStoreQueue b' = br_mDataPacketStoreQueue b" "br_mPublishQueue b' = br_mPublishQueue b"
    "br_mGlobalSequenceNumber b' = br_mGlobalSequenceNumber b" "br_propagator b' = br_propagator b"
    "br_mMaximumImportQueueSize b' = br_mMaximumImportQueueSize b"
  using assms by (auto simp: addPacketCallback_def Let_def split: sum.splits prod.splits if_splits)

lemma addPacketCallback_queue:
  assumes "addPacketCallback p b = (e, b')" "0 < br_mMaximumImportQueueSize b"
    and "length (br_mImportQueue b) \<le> br_mMaximumImportQueueSize b + 1"
  shows "length (br_mImportQueue b') \<le> br_mMaximumImportQueueSize b + 1"
proof (cases "isValid p")
  case (Inl m)
  with assms(1,3) show ?thesis by (auto simp: addPacketCallback_invalid)
next
  case (Inr u)
  with assms show ?thesis by (auto simp: addPacketCallback_valid overflow_def)
qed

section \<open>Consecutive numbers\<close>

definition numbered_to :: "u64 \<Rightarrow> u64 list \<Rightarrow> bool" where
  "numbered_to g ns \<longleftrightarrow> (\<forall>k<length ns. rev ns ! k = g - of_nat k)"

lemma numbered_to_Nil [simp]: "numbered_to g []"
  by (simp add: numbered_to_def)

lemma numbered_to_append: "numbered_to g ns \<Longrightarrow> numbered_to (g + 1) (ns @ [g + 1])"
  by (auto simp: numbered_to_def nth_Cons split: nat.split)

lemma numbered_to_drop: "numbered_to g ns \<Longrightarrow> numbered_to g (drop k ns)"
  by (auto simp: numbered_to_def rev_drop)

lemma numbered_to_tl: "numbered_to g ns \<Longrightarrow> numbered_to g (tl ns)"
  using numbered_to_drop [of g ns 1] by (simp add: drop_Suc)

text \<open>The number of the last packet that entered the store queue.\<close>

fun last_queued :: "propagator \<Rightarrow> u64 \<Rightarrow> u64" where
  "last_queued (Published t p) g = g - 1"
| "last_queued _ g = g"

definition broker_inv :: "'s Broker \<Rightarrow> bool" where
  "broker_inv b \<longleftrightarrow>
     br_mMaximumImportQueueSize b = 8192 \<and> length (br_mImportQueue b) \<le> 8193 \<and>
     length (br_mPublishQueue b) \<le> 4096 \<and> length (br_mDataPacketStoreQueue b) \<le> 4096 \<and>
     numbered_to (br_mGlobalSequenceNumber b) (map sequence_number (br_mPublishQueue b)) \<and>
     numbered_to (last_queued (br_propagator b) (br_mGlobalSequenceNumber b))
       (map (sequence_number \<circ> snd) (br_mDataPacketStoreQueue b)) \<and>
     (\<forall>t p. br_propagator b = Published t p \<longrightarrow> sequence_number p = br_mGlobalSequenceNumber b)"

lemma inv_import: "broker_inv b \<Longrightarrow> addPacketCallback p b = (e, b') \<Longrightarrow> broker_inv b'"
  using addPacketCallback_frame [of p b e b'] addPacketCallback_queue [of p b e b']
  by (simp add: broker_inv_def)

lemma inv_pop: "broker_inv b \<Longrightarrow> br_propagator b = Idle \<Longrightarrow> broker_inv (propagate_pop b)"
  by (auto simp: broker_inv_def propagate_pop_def split: list.split)

lemma inv_publish:
  assumes "broker_inv b" "br_propagator b = Popped p"
  shows "broker_inv (propagate_publish now p b)"
  using assms numbered_to_append numbered_to_drop [of "br_mGlobalSequenceNumber b"]
  by (auto simp: broker_inv_def propagate_publish_def pop_while_drop Let_def simp flip: drop_map)

lemma inv_enqueue:
  assumes "broker_inv b" "br_propagator b = Published t p"
  shows "broker_inv (propagate_store t p b)"
  using assms numbered_to_append [of "br_mGlobalSequenceNumber b - 1"]
    numbered_to_drop [of "br_mGlobalSequenceNumber b - 1"]
  by (auto simp: broker_inv_def propagate_store_def pop_while_drop Let_def simp flip: drop_map)

lemma inv_compact: "broker_inv b \<Longrightarrow> compact_round S now b = (r, b') \<Longrightarrow> broker_inv b'"
  by (auto simp: broker_inv_def compact_round_def Let_def split: prod.splits)

lemma stop_step_frame:
  assumes "stop_step S b b'"
  shows "br_mImportQueue b' = br_mImportQueue b" "br_mPublishQueue b' = br_mPublishQueue b"
    "br_mDataPacketStoreQueue b' = br_mDataPacketStoreQueue b" "br_propagator b' = br_propagator b"
    "br_mGlobalSequenceNumber b' = br_mGlobalSequenceNumber b" "br_mOptions b' = br_mOptions b"
    "br_mMaximumImportQueueSize b' = br_mMaximumImportQueueSize b"
    "mNumberOfPacketsPoppedFromImportQueue (br_mMetrics b') = mNumberOfPacketsPoppedFromImportQueue (br_mMetrics b)"
    "br_mDataPacketStore b' = br_mDataPacketStore b \<or> br_mDataPacketStore b' = st_flush S (br_mDataPacketStore b)"
  using assms
  by (auto elim!: stop_stepE simp: stop_publishing_def stop_loops_def ask_shutdown_def flush_store_def
      stop_service_def updatePublishServiceUtilization_def Let_def split: prod.splits)

lemma inv_stop: "broker_inv b \<Longrightarrow> stop_step S b b' \<Longrightarrow> broker_inv b'"
  using stop_step_frame [of S b b'] by (simp add: broker_inv_def)

lemma broker_thread_step_inv: "broker_thread_step S b b' \<Longrightarrow> broker_inv b \<Longrightarrow> broker_inv b'"
proof (induction rule: broker_thread_step.induct)
  case (truncate_chunk b d r s)
  then show ?case by (simp add: broker_inv_def)
qed (blast intro: inv_pop inv_publish inv_enqueue inv_compact inv_stop)+

lemma broker_step_inv: "broker_step S b b' \<Longrightarrow> broker_inv b \<Longrightarrow> broker_inv b'"
  by (induction rule: broker_step.induct) (blast intro: inv_import broker_thread_step_inv)+

lemma construct_members:
  "Broker_construct S options (Some store) m = Inr b \<Longrightarrow>
   br_mOptions b = options \<and> br_mDataPacketStore b = store \<and> br_mImportQueue b = [] \<and>
   br_mPublishQueue b = [] \<and> br_mDataPacketStoreQueue b = [] \<and> br_propagator b = Idle \<and>
   br_mMaximumImportQueueSize b = 8192 \<and>
   st_getGlobalSequenceNumber S store = Inr (br_mGlobalSequenceNumber b)"
  by (auto simp: Broker_construct_def split: if_splits sum.splits)

lemma start_simps [simp]:
  "br_mOptions (start b) = br_mOptions b" "br_mDataPacketStore (start b) = br_mDataPacketStore b"
  "br_mImportQueue (start b) = br_mImportQueue b" "br_mPublishQueue (start b) = br_mPublishQueue b"
  "br_mDataPacketStoreQueue (start b) = br_mDataPacketStoreQueue b"
  "br_propagator (start b) = br_propagator b"
  "br_mMaximumImportQueueSize (start b) = br_mMaximumImportQueueSize b"
  "br_mGlobalSequenceNumber (start b) = br_mGlobalSequenceNumber b" "br_mKeepRunning (start b)"
  by (simp_all add: start_def)

lemma broker_reachable_inv: "broker_reachable S options store b \<Longrightarrow> broker_inv b"
proof (induction rule: broker_reachable.induct)
  case (constructed m b)
  from construct_members [OF this] show ?case by (simp add: broker_inv_def)
qed (rule broker_step_inv)

section \<open>The broker behind the publish service\<close>

definition is_valid :: "Packet \<Rightarrow> bool" where
  "is_valid p \<longleftrightarrow> (\<exists>u. isValid p = Inr u)"

definition import_room :: "nat \<Rightarrow> 's Broker \<Rightarrow> bool" where
  "import_room n b \<longleftrightarrow> br_mMaximumImportQueueSize b = 8192 \<and> length (br_mImportQueue b) + n \<le> 8193"

lemma import_packet:
  assumes "import_room (Suc n) b"
  shows "br_mImportQueue (snd (addPacketCallback p b)) = br_mImportQueue b @ (if is_valid p then [p] else [])"
  using assms by (cases "isValid p")
    (auto simp: import_room_def is_valid_def addPacketCallback_invalid addPacketCallback_valid overflow_def)

interpretation broker_landing: packet_landing addPacketCallback br_mImportQueue import_room is_valid
proof unfold_locales
  fix p :: Packet and b :: "'a Broker" and n
  show "outcome_of (fst (addPacketCallback p b)) = (if is_valid p then Accepted else Invalid)"
    by (cases "isValid p") (auto simp: is_valid_def addPacketCallback_def outcome_of_def Let_def
        split: prod.split)
  assume room: "import_room (Suc n) b"
  show "br_mImportQueue (snd (addPacketCallback p b)) = br_mImportQueue b @ (if is_valid p then [p] else [])"
    by (rule import_packet [OF room])
  have "br_mMaximumImportQueueSize (snd (addPacketCallback p b)) = 8192"
    using addPacketCallback_frame(7) [of p b "fst (addPacketCallback p b)" "snd (addPacketCallback p b)"] room
    by (simp add: import_room_def)
  with room import_packet [OF room, of p] show "import_room n (snd (addPacketCallback p b))"
    by (auto simp: import_room_def)
qed

section \<open>The publish service of a running broker\<close>

definition listening :: "'s Broker \<Rightarrow> bool" where
  "listening b \<longleftrightarrow> ps_mServer (br_mPublishService b) \<noteq> None \<or> ps_mServerStarted (br_mPublishService b)"

lemma not_listening_start [simp]: "listening (start b) \<longleftrightarrow> listening b"
  by (simp add: listening_def start_def)

lemma not_listening_stop: "stop_step S b b' \<Longrightarrow> \<not> listening b \<Longrightarrow> \<not> listening b'"
  by (auto elim!: stop_stepE simp: listening_def stop_publishing_def stop_loops_def ask_shutdown_def
      flush_store_def stop_service_def Let_def)

lemma not_listening_step: "broker_step S b b' \<Longrightarrow> \<not> listening b \<Longrightarrow> \<not> listening b'"
  by (erule broker_step.cases; (erule broker_thread_stepE)?; (blast dest: not_listening_stop)?)
    (auto simp: listening_def addPacketCallback_def propagate_pop_def propagate_publish_def propagate_store_def
      compact_round_def Let_def
      split: sum.splits prod.splits list.splits if_splits)

lemma broker_never_listens: "broker_reachable S options store b \<Longrightarrow> \<not> listening b"
proof (induction rule: broker_reachable.induct)
  case (constructed m b)
  then show ?case
    by (auto simp: Broker_construct_def PublishService_construct_def listening_def start_def
        split: if_splits sum.splits)
qed (rule not_listening_step)

section \<open>Truncation and compaction against the contract\<close>

context data_store
begin

text \<open>The inner loop ends on every store that keeps the contract: the span decreases.\<close>

lemma truncate_loop_ends:
  assumes "good store" "chunk < sequence_limit"
  shows "\<exists>r store'. truncate_loop S desired chunk tot store = Some (r, store') \<and> good store' \<and>
    (\<forall>i q. lookup store' i q = None \<or> lookup store' i q = lookup store i q)"
  using assms(1)
proof (induction "span store" arbitrary: store tot rule: less_induct)
  case less
  obtain r s' where t: "st_truncateOldest S chunk store = (r, s')" by force
  note c = truncate [OF less.prems assms(2) t]
  then obtain p where p: "r = Inr p" "if p = 0 then lookup s' = lookup store else span s' < span store" by blast
  show ?case
  proof (cases "\<exists>sz. st_getSizeInBytes S store = Inr sz \<and> sz > desired \<and> p \<noteq> 0")
    case True
    then have "truncate_loop S desired chunk tot store =
        truncate_loop S desired chunk (tot + ucast p) s'"
      by (subst truncate_loop.simps) (auto simp: t p(1))
    moreover obtain r2 s2 where "truncate_loop S desired chunk (tot + ucast p) s' = Some (r2, s2)"
        "good s2" "\<forall>i q. lookup s2 i q = None \<or> lookup s2 i q = lookup s' i q"
      using less.hyps [of s' "tot + ucast p"] True p(2) c by auto
    ultimately show ?thesis using c by metis
  next
    case False
    then show ?thesis
      using less.prems c t p(1)
      by (subst truncate_loop.simps) (auto split: sum.split)
  qed
qed

lemma truncate_loop_size:
  assumes "good store" "chunk < sequence_limit"
    and "truncate_loop S desired chunk tot store = Some (Inr n, store')"
  shows "(\<exists>sz. st_getSizeInBytes S store' = Inr sz \<and> sz \<le> desired) \<or>
         (\<exists>s'. good s' \<and> st_truncateOldest S chunk s' = (Inr 0, store'))"
  using assms(1,3)
proof (induction "span store" arbitrary: store tot rule: less_induct)
  case less
  obtain r s' where t: "st_truncateOldest S chunk store = (r, s')" by force
  note c = truncate [OF less.prems(1) assms(2) t]
  then obtain p where p: "r = Inr p" "if p = 0 then lookup s' = lookup store else span s' < span store" by blast
  obtain sz where sz: "st_getSizeInBytes S store = Inr sz"
    using less.prems(2) by (subst (asm) truncate_loop.simps) (auto split: sum.splits)
  show ?case
  proof (cases "sz > desired \<and> p \<noteq> 0")
    case True
    then have "truncate_loop S desired chunk (tot + ucast p) s' = Some (Inr n, store')"
      using less.prems(2) by (subst (asm) truncate_loop.simps) (auto simp: t p(1) sz)
    with less.hyps [of s'] True p(2) c show ?thesis by auto
  next
    case False
    with less.prems(2) have "(sz \<le> desired \<and> store' = store) \<or> (p = 0 \<and> store' = s')"
      by (subst (asm) truncate_loop.simps) (auto simp: t p(1) sz split: if_splits)
    with sz t p(1) less.prems(1) show ?thesis by auto
  qed
qed

text \<open>No step of the broker adds a packet to the store.\<close>

lemma broker_thread_step_store:
  assumes "broker_thread_step S b b'" "good (br_mDataPacketStore b)"
    and "of_int (mTruncationChunkSize (br_mOptions b)) < sequence_limit"
  shows "good (br_mDataPacketStore b') \<and> br_mOptions b' = br_mOptions b \<and>
    (\<forall>i q. lookup (br_mDataPacketStore b') i q = None \<or>
           lookup (br_mDataPacketStore b') i q = lookup (br_mDataPacketStore b) i q)"
  using assms
proof (induction rule: broker_thread_step.induct)
  case (compact b now r b')
  then obtain u s where c: "st_compact S (now - of_int (mRetentionDuration (br_mOptions b) * 1000000000))
      (br_mDataPacketStore b) = (u, s)" "b' = b\<lparr>br_mDataPacketStore := s\<rparr>"
    by (auto simp: compact_round_def Let_def split: prod.splits)
  with data_store.compact [OF data_store_axioms compact(3) c(1)] show ?case by simp
next
  case (truncate_chunk b d r s)
  from truncate [OF truncate_chunk(3,4,2)] show ?case by simp
next
  case (stop b b')
  then show ?case using flush [of "br_mDataPacketStore b"] stop_step_frame(6,9) [OF stop.hyps] by auto
qed (auto simp: propagate_pop_def propagate_publish_def propagate_store_def Let_def split: list.split prod.split)

lemma broker_step_store:
  assumes "broker_step S b b'" "good (br_mDataPacketStore b)"
    and "of_int (mTruncationChunkSize (br_mOptions b)) < sequence_limit"
  shows "good (br_mDataPacketStore b') \<and> br_mOptions b' = br_mOptions b \<and>
    (\<forall>i q. lookup (br_mDataPacketStore b') i q = None \<or>
           lookup (br_mDataPacketStore b') i q = lookup (br_mDataPacketStore b) i q)"
  using assms
proof (induction rule: broker_step.induct)
  case (import_packet p b e b')
  with addPacketCallback_frame [OF import_packet(1)] show ?case by simp
qed (rule broker_thread_step_store)

lemma broker_reachable_store:
  assumes "broker_reachable S options store b" "good store"
    and "of_int (mTruncationChunkSize options) < sequence_limit"
  shows "good (br_mDataPacketStore b) \<and> br_mOptions b = options \<and>
    (\<forall>i q. lookup (br_mDataPacketStore b) i q = None \<or>
           lookup (br_mDataPacketStore b) i q = lookup store i q)"
  using assms
proof (induction rule: broker_reachable.induct)
  case (constructed m b)
  from construct_members [OF constructed(1)] constructed(2) show ?case by simp
next
  case (stepped b b')
  with broker_step_store [OF stepped(2)] show ?case by metis
qed

end

section \<open>A concrete broker\<close>

definition demo_broker_options :: BrokerOptions where
  "demo_broker_options = (setPublishServiceOptions demo_publish_options BrokerOptions_init)
     \<lparr>mHasSubscribeServiceOptions := True, mDesiredMaximumDataStoreSizeInBytes := Some 1\<rparr>"

definition demo_broker :: "mem_db RocksDatabase Broker" where
  "demo_broker = start (projr (Broker_construct (RocksStore mem_rocks demo_ser) demo_broker_options
     (Some demo_store) MetricsSingleton_init))"

definition demo_valid :: Packet where
  "demo_valid = \<lparr>pk_stream_identifier = Some demo_id, pk_start_time = Some \<lparr>ts_seconds = 0, ts_nanos = 0\<rparr>,
     pk_sampling_rate = Some 0x4059000000000000, pk_data_type = Some DATA_TYPE_INTEGER_32,
     pk_number_of_samples = Some 1, pk_data = Some ''abcd'', pk_sequence_number = Some 77\<rparr>"

lemma isValid_demo_valid [simp]: "isValid demo_valid = Inr True"
  by (simp add: isValid_def demo_valid_def stream_identifier_def sampling_rate_def demo_id_def
      makeIdentifier_def dbl_le_zero_examples Let_def)

lemma demo_global: "getGlobalSequenceNumber mem_rocks demo_store = Inr 5"
proof -
  have "registry_maxes (mem_contents (database demo_store)) = {5}"
    by (auto simp: registry_maxes_def demo_registry)
  then show ?thesis by (simp add: mem.getGlobalSequenceNumber_eq [OF demo_initialized])
qed

lemma demo_store_good: "rocks_good mem_contents demo_store"
proof -
  have "registry_maxes (mem_contents (database demo_store)) = {5}"
    by (auto simp: registry_maxes_def demo_registry)
  then show ?thesis by (simp add: rocks_good_def demo_wf demo_initialized sequence_limit_def)
qed

lemma demo_construct:
  obtains b where "Broker_construct (RocksStore mem_rocks demo_ser) demo_broker_options
      (Some demo_store) MetricsSingleton_init = Inr b" "demo_broker = start b"
    "br_mGlobalSequenceNumber b = 5" "br_mPublishQueue b = []" "br_mDataPacketStoreQueue b = []"
    "br_mImportQueue b = []" "br_mMaximumImportQueueSize b = 8192" "br_propagator b = Idle"
proof -
  obtain b where b: "Broker_construct (RocksStore mem_rocks demo_ser) demo_broker_options
      (Some demo_store) MetricsSingleton_init = Inr b"
    by (simp add: Broker_construct_def demo_broker_options_def setPublishServiceOptions_def
        hasPublishServiceOptions_def hasSubscribeServiceOptions_def demo_global
        getPublishServiceOptions_def PublishService_construct_def)
  with construct_members [OF b] show thesis
    by (intro that [OF b]) (simp_all add: demo_broker_def demo_global)
qed

lemma demo_broker_simps [simp]:
  "br_mGlobalSequenceNumber demo_broker = 5" "br_mPublishQueue demo_broker = []"
  "br_mDataPacketStoreQueue demo_broker = []" "br_mImportQueue demo_broker = []"
  "br_mMaximumImportQueueSize demo_broker = 8192" "br_propagator demo_broker = Idle"
  "br_mKeepRunning demo_broker"
proof -
  obtain b where f: "demo_broker = start b" "br_mGlobalSequenceNumber b = 5" "br_mPublishQueue b = []"
    "br_mDataPacketStoreQueue b = []" "br_mImportQueue b = []" "br_mMaximumImportQueueSize b = 8192"
    "br_propagator b = Idle" by (rule demo_construct)
  show "br_mGlobalSequenceNumber demo_broker = 5" "br_mPublishQueue demo_broker = []"
    "br_mDataPacketStoreQueue demo_broker = []" "br_mImportQueue demo_broker = []"
    "br_mMaximumImportQueueSize demo_broker = 8192" "br_propagator demo_broker = Idle"
    "br_mKeepRunning demo_broker" by (simp_all add: f)
qed

lemma demo_broker_reachable:
  "broker_reachable (RocksStore mem_rocks demo_ser) demo_broker_options demo_store demo_broker"
  by (rule demo_construct) (metis broker_reachable.constructed)

section \<open>Loops over futures and queues\<close>

lemma drain_loop_empties: "drain_loop q = Some q' \<Longrightarrow> q = []"
  by (rule drain_loop.raw_induct [of "\<lambda>q y. q = []" q q']) (auto split: if_splits)

lemma check_futures_loop:
  "foldl check_future (False, done') fs = (False, done' @ map (\<lambda>(name, f).
     (name, case future_get f of None \<Rightarrow> f | Some (e, f') \<Rightarrow> f')) fs)"
  by (induction fs arbitrary: done') (auto simp: check_future_def split: option.split)

text \<open>The futures up to the first that has not ended normally.\<close>

abbreviation ended :: "string \<times> future \<Rightarrow> bool" where
  "ended x \<equiv> snd x = Ready None"

abbreviation take_result :: "string \<times> future \<Rightarrow> string \<times> future" where
  "take_result x \<equiv> (fst x, Taken)"

lemma get_futures_eq:
  "get_futures fm = (case dropWhile ended fm of
     [] \<Rightarrow> Some (None, map take_result fm)
   | (n, f) # gs \<Rightarrow> (case future_get f of
        None \<Rightarrow> None
      | Some (e, f') \<Rightarrow> Some (e, map take_result (takeWhile ended fm) @ (n, f') # gs)))"
proof (induction fm)
  case (Cons x fm)
  obtain n f where x: "x = (n, f)" by (cases x)
  show ?case
  proof (cases "f = Ready None")
    case True
    with Cons show ?thesis
      by (auto simp: x simp del: dropWhile_eq_Nil_conv split: list.split option.split)
  next
    case False
    then show ?thesis by (cases f rule: future_get.cases) (auto simp: x split: option.split)
  qed
qed simp

section \<open>Properties\<close>

text \<open>C9.  Under every interleaving of arriving packets with the rounds of the propagator, compaction,
  truncation and stop, the import queue holds at most 8193 packets and the outgoing queues at most
  4096 each; the packets of both outgoing queues carry consecutive sequence numbers, ending at the
  global number (at the number before it in the store queue while a packet is on its way there).\<close>

theorem broker_queue_invariant:
  assumes "broker_reachable S options store b"
  shows "length (br_mImportQueue b) \<le> 8193 \<and> length (br_mPublishQueue b) \<le> 4096 \<and>
         length (br_mDataPacketStoreQueue b) \<le> 4096 \<and>
         numbered_to (br_mGlobalSequenceNumber b) (map sequence_number (br_mPublishQueue b)) \<and>
         numbered_to (case br_propagator b of Published t p \<Rightarrow> br_mGlobalSequenceNumber b - 1
                                            | _ \<Rightarrow> br_mGlobalSequenceNumber b)
           (map (sequence_number \<circ> snd) (br_mDataPacketStoreQueue b))"
  using broker_reachable_inv [OF assms] by (cases "br_propagator b") (simp_all add: broker_inv_def)

theorem broker_queue_invariant_witness:
  "br_mPublishQueue (propagate_publish 9 demo_valid (propagate_pop
     (snd (addPacketCallback demo_valid demo_broker)))) = [set_sequence_number demo_valid 6] \<and>
   numbered_to 6 (map sequence_number (br_mPublishQueue (propagate_publish 9 demo_valid (propagate_pop
     (snd (addPacketCallback demo_valid demo_broker))))))"
proof -
  let ?S = "RocksStore mem_rocks demo_ser"
  let ?b1 = "snd (addPacketCallback demo_valid demo_broker)"
  let ?b3 = "propagate_publish 9 demo_valid (propagate_pop ?b1)"
  obtain m where b1: "?b1 = demo_broker\<lparr>br_mImportQueue := [demo_valid], br_mMetrics := m\<rparr>"
    by (simp add: addPacketCallback_valid [OF isValid_demo_valid] overflow_def)
  have r1: "broker_reachable ?S demo_broker_options demo_store ?b1"
    by (rule broker_reachable.stepped [OF demo_broker_reachable broker_step.import_packet
          [of demo_valid demo_broker "fst (addPacketCallback demo_valid demo_broker)"]]) simp
  have r2: "broker_reachable ?S demo_broker_options demo_store (propagate_pop ?b1)"
    by (rule broker_reachable.stepped [OF r1 broker_step.thread [OF broker_thread_step.pop]])
      (simp_all add: b1)
  have "br_propagator (propagate_pop ?b1) = Popped demo_valid"
    by (simp add: b1 propagate_pop_def)
  then have r3: "broker_reachable ?S demo_broker_options demo_store ?b3"
    by (rule broker_reachable.stepped [OF r2 broker_step.thread [OF broker_thread_step.publish]])
  have "br_mPublishQueue ?b3 = [set_sequence_number demo_valid 6]" "br_mGlobalSequenceNumber ?b3 = 6"
    by (simp_all add: b1 propagate_pop_def propagate_publish_def Let_def)
  with broker_queue_invariant [OF r3] show ?thesis by simp
qed

text \<open>C28.  The landing spot of the publish service.  Every packet is counted as received.  An invalid
  one is refused with \<open>std::invalid_argument\<close>, counted as invalid and not queued.  A valid one is
  queued behind the others, after the oldest have been dropped (and counted as popped) down to 8191
  when the queue has outgrown its limit; it too is counted as invalid, and the counter of packets
  written to the import queue is never touched.\<close>

theorem addPacketCallback_effect:
  assumes "br_mMaximumImportQueueSize b = 8192"
  shows "\<exists>b'. addPacketCallback p b =
           (case isValid p of Inl m \<Rightarrow> Some (InvalidArgument (''Input packet invalid: '' @ m)) | Inr _ \<Rightarrow> None, b') \<and>
    br_mImportQueue b' = (case isValid p of Inl m \<Rightarrow> br_mImportQueue b
       | Inr _ \<Rightarrow> (if 8192 < length (br_mImportQueue b)
                   then drop (length (br_mImportQueue b) - 8191) (br_mImportQueue b)
                   else br_mImportQueue b) @ [p]) \<and>
    mTotalNumberOfPacketsReceived (br_mMetrics b') = mTotalNumberOfPacketsReceived (br_mMetrics b) + 1 \<and>
    mNumberOfInvalidPacketsReceived (br_mMetrics b') = mNumberOfInvalidPacketsReceived (br_mMetrics b) + 1 \<and>
    mNumberOfPacketsPoppedFromImportQueue (br_mMetrics b') = mNumberOfPacketsPoppedFromImportQueue (br_mMetrics b) +
      (case isValid p of Inl m \<Rightarrow> 0 | Inr _ \<Rightarrow>
         if 8192 < length (br_mImportQueue b) then of_nat (length (br_mImportQueue b) - 8191) else 0) \<and>
    mNumberOfPacketsAddedToImportQueue (br_mMetrics b') = mNumberOfPacketsAddedToImportQueue (br_mMetrics b)"
proof (cases "isValid p")
  case (Inl m)
  then show ?thesis
    by (simp add: addPacketCallback_invalid incrementNumberOfInvalidPacketsReceived_def
        incrementTotalNumberOfPacketsReceived_def)
next
  case (Inr u)
  with assms show ?thesis
    by (simp add: addPacketCallback_valid overflow_def incrementNumberOfInvalidPacketsReceived_def
        incrementTotalNumberOfPacketsReceived_def incrementNumberOfPacketsPoppedFromImportQueue_def)
qed

theorem addPacketCallback_effect_witness:
  "\<exists>b'. addPacketCallback demo_valid (demo_broker\<lparr>br_mImportQueue := replicate 8194 demo_valid\<rparr>) = (None, b') \<and>
     br_mImportQueue b' = replicate 8191 demo_valid @ [demo_valid] \<and>
     mNumberOfPacketsPoppedFromImportQueue (br_mMetrics b') =
       mNumberOfPacketsPoppedFromImportQueue (br_mMetrics demo_broker) + 3 \<and>
     mNumberOfInvalidPacketsReceived (br_mMetrics b') =
       mNumberOfInvalidPacketsReceived (br_mMetrics demo_broker) + 1"
  using addPacketCallback_effect [of "demo_broker\<lparr>br_mImportQueue := replicate 8194 demo_valid\<rparr>" demo_valid]
  by auto

text \<open>An undisturbed round of the propagator moves the oldest imported packet, renumbered with
  the next global number whatever number the client gave it, to the end of both outgoing queues,
  dropping the oldest entries of a queue that is full; without a packet it changes nothing.\<close>

lemma propagatePacket_effect:
  assumes "br_propagator b = Idle" "length (br_mPublishQueue b) \<le> 4096"
    and "length (br_mDataPacketStoreQueue b) \<le> 4096"
  shows "propagatePacket now b = (case br_mImportQueue b of [] \<Rightarrow> b
    | p # queue \<Rightarrow>
        let g = br_mGlobalSequenceNumber b + 1;
            room = (\<lambda>n. if n = 4096 then 1 else 0)
        in b\<lparr>br_mImportQueue := queue, br_mGlobalSequenceNumber := g,
             br_mPublishQueue := drop (room (length (br_mPublishQueue b))) (br_mPublishQueue b)
               @ [set_sequence_number p g],
             br_mDataPacketStoreQueue :=
               drop (room (length (br_mDataPacketStoreQueue b))) (br_mDataPacketStoreQueue b)
               @ [(now, set_sequence_number p g)]\<rparr>)"
proof -
  have room: "n + 1 - 4096 = (if n = 4096 then 1 else 0)" if "n \<le> 4096" for n :: nat
    using that by simp
  show ?thesis
    using assms room [of "length (br_mPublishQueue b)"] room [of "length (br_mDataPacketStoreQueue b)"]
    by (cases "br_mImportQueue b")
      (simp_all add: propagatePacket_def propagate_pop_def propagate_publish_def propagate_store_def
        pop_while_drop Let_def)
qed

text \<open>C33.  The thread that should write packets to the store hangs, holding the store queue's mutex, as
  soon as it finds the queue non-empty: the loop that should drain the queue does not change it.
  On an empty queue it changes nothing, so it never writes anything.\<close>

theorem writePacketsToDataStore_hangs:
  "writePacketsToDataStore b = (if br_mDataPacketStoreQueue b = [] then Some b else None)"
proof (cases "br_mDataPacketStoreQueue b = []")
  case True
  then show ?thesis by (simp add: writePacketsToDataStore_def drain_loop.simps)
next
  case False
  with drain_loop_empties have "drain_loop (br_mDataPacketStoreQueue b) = None"
    by (cases "drain_loop (br_mDataPacketStoreQueue b)") auto
  with False show ?thesis by (simp add: writePacketsToDataStore_def)
qed

text \<open>The options a client can build with the members of \<open>BrokerOptions\<close>.\<close>

inductive broker_options_built :: "BrokerOptions \<Rightarrow> bool" where
  default_options: "broker_options_built BrokerOptions_init"
| publish_options: "broker_options_built p \<Longrightarrow> broker_options_built (setPublishServiceOptions o' p)"
| retention: "broker_options_built p \<Longrightarrow> setRetentionDuration d p = Inr p' \<Longrightarrow> broker_options_built p'"
| compaction: "broker_options_built p \<Longrightarrow> setCompactionInterval d p = Inr p' \<Longrightarrow> broker_options_built p'"

text \<open>C34.  No broker can be constructed from options a client can build: the constructor asks for
  subscribe service options, which no member of the options class sets, so it always throws.
  All such options keep a positive retention, a non-negative compaction interval (the
  setter accepts zero) and the default truncation settings.\<close>

theorem broker_never_constructed:
  assumes "broker_options_built options"
  shows "(\<exists>e. Broker_construct S options store m = Inl (InvalidArgument e)) \<and>
         0 < mRetentionDuration options \<and> 0 \<le> mCompactionInterval options \<and>
         mTruncationChunkSize options = 128 \<and> mTruncationBaseInterval options = 30 \<and>
         mDesiredMaximumDataStoreSizeInBytes options = None"
proof -
  from assms have "\<not> mHasSubscribeServiceOptions options \<and> 0 < mRetentionDuration options \<and>
      0 \<le> mCompactionInterval options \<and> mTruncationChunkSize options = 128 \<and>
      mTruncationBaseInterval options = 30 \<and> mDesiredMaximumDataStoreSizeInBytes options = None"
    by induction (auto simp: BrokerOptions_init_def setPublishServiceOptions_def
        setRetentionDuration_def setCompactionInterval_def split: if_splits)
  then show ?thesis by (simp add: Broker_construct_def hasSubscribeServiceOptions_def)
qed

theorem broker_never_constructed_witness:
  "\<exists>e. Broker_construct (RocksStore mem_rocks demo_ser)
     (setPublishServiceOptions demo_publish_options BrokerOptions_init) (Some demo_store)
     MetricsSingleton_init = Inl (InvalidArgument e)"
  using broker_never_constructed [OF broker_options_built.publish_options
      [OF broker_options_built.default_options, of demo_publish_options],
      of "RocksStore mem_rocks demo_ser" "Some demo_store" MetricsSingleton_init] by blast

text \<open>The health check of the threads never reports that they are well, even when every thread is
  running; it takes the results of the threads that have ended and leaves the others alone.\<close>

lemma checkFuturesOkay_never:
  "fst (checkFuturesOkay b) = False \<and>
   br_mFuturesMap (snd (checkFuturesOkay b)) =
     map (\<lambda>(name, f). (name, if f = Pending then Pending else Taken)) (br_mFuturesMap b)"
proof -
  have "(case future_get f of None \<Rightarrow> f | Some (e, f') \<Rightarrow> f') = (if f = Pending then Pending else Taken)" for f
    by (cases f) auto
  then show ?thesis by (simp add: checkFuturesOkay_def check_futures_loop)
qed

text \<open>Stopping joins the threads in the order of their names.  With every thread ended normally
  it takes all results; otherwise the first thread that has not decides: a running one blocks it,
  and an exception (of the thread, or because its result was taken before) leaves \<open>stop\<close> with the
  results before it taken and those after it untouched.\<close>

lemma stop_joins_threads:
  "stop_join b = (case dropWhile ended (br_mFuturesMap b) of
     [] \<Rightarrow> Some (None, b\<lparr>br_mFuturesMap := map take_result (br_mFuturesMap b)\<rparr>)
   | (n, f) # gs \<Rightarrow>
       if f = Pending then None
       else Some (Some (case f of Ready (Some e) \<Rightarrow> e | _ \<Rightarrow> OtherException ''No associated state''),
              b\<lparr>br_mFuturesMap := map take_result (takeWhile ended (br_mFuturesMap b)) @ (n, Taken) # gs\<rparr>))"
proof (cases "dropWhile ended (br_mFuturesMap b)")
  case Nil
  then show ?thesis by (simp add: stop_join_def get_futures_eq del: dropWhile_eq_Nil_conv)
next
  case (Cons x gs)
  obtain n f where x: "x = (n, f)" by (cases x)
  have "f \<noteq> Ready None" using Cons dropWhile_eq_Cons_conv [of ended "br_mFuturesMap b"] x by auto
  with Cons x show ?thesis
    by (cases f) (auto simp: stop_join_def get_futures_eq split: option.split)
qed

end
