(* ===== verification/Broker_Pipeline.thy ===== *)
theory Broker_Pipeline
  imports Broker_System "HOL-Library.Sublist"
begin

text \<open>
  What becomes of a packet inside the running broker, under every interleaving of arriving packets
  with the broker's threads: the queues are windows on the list of all packets that arrived, in
  order, and no packet is invented, duplicated or lost without being counted.
\<close>

section \<open>The history of a broker\<close>

text \<open>A run of the broker \<open>b0\<close> after \<open>start\<close>, with the valid packets that have arrived so far.\<close>

inductive broker_history ::
  "'s IDataPacketStore \<Rightarrow> 's Broker \<Rightarrow> Packet list \<Rightarrow> 's Broker \<Rightarrow> bool" for S b0 where
  started: "broker_history S b0 [] (start b0)"
| arrived: "broker_history S b0 arr b \<Longrightarrow> addPacketCallback p b = (e, b') \<Longrightarrow>
     broker_history S b0 (arr @ (if is_valid p then [p] else [])) b'"
| threads: "broker_history S b0 arr b \<Longrightarrow> broker_thread_step S b b' \<Longrightarrow> broker_history S b0 arr b'"

lemma broker_history_reachable:
  assumes "broker_history S b0 arr b" "Broker_construct S options (Some store) m = Inr b0"
  shows "broker_reachable S options store b"
  using assms
proof (induction rule: broker_history.induct)
  case started
  then show ?case by (rule constructed)
next
  case (arrived arr b p e b')
  then show ?case by (meson broker_step.import_packet broker_reachable.stepped)
next
  case (threads arr b b')
  then show ?case by (meson broker_step.thread broker_reachable.stepped)
qed

lemma reachable_broker_history:
  "broker_reachable S options store b \<Longrightarrow>
   \<exists>m b0 arr. Broker_construct S options (Some store) m = Inr b0 \<and> broker_history S b0 arr b"
proof (induction rule: broker_reachable.induct)
  case (constructed m b)
  then show ?case using started by blast
next
  case (stepped b b')
  then show ?case by (auto elim!: broker_step.cases dest: arrived threads)
qed

section \<open>The pipeline\<close>

text \<open>The packets as they are numbered, after the number \<open>g\<close>.\<close>

fun renumbered :: "u64 \<Rightarrow> Packet list \<Rightarrow> Packet list" where
  "renumbered g [] = []"
| "renumbered g (p # ps) = set_sequence_number p (g + 1) # renumbered (g + 1) ps"

lemma renumbered_append [simp]:
  "renumbered g (ps @ qs) = renumbered g ps @ renumbered (g + of_nat (length ps)) qs"
  by (induction ps arbitrary: g) (simp_all add: ac_simps)

lemma length_renumbered [simp]: "length (renumbered g ps) = length ps"
  by (induction ps arbitrary: g) simp_all

text \<open>The packets the propagator has numbered, of those it has taken, and those of them it has put
  into the store queue.\<close>

fun in_flight :: "propagator \<Rightarrow> Packet list" where
  "in_flight (Popped p) = [p]"
| "in_flight _ = []"

fun on_its_way :: "propagator \<Rightarrow> Packet list" where
  "on_its_way (Published t p) = [p]"
| "on_its_way _ = []"

definition pipeline :: "'s Broker \<Rightarrow> Packet list \<Rightarrow> Packet list \<Rightarrow> Packet list \<Rightarrow> 's Broker \<Rightarrow> bool" where
  "pipeline b0 arr ts ns b \<longleftrightarrow>
     suffix (br_mImportQueue b) arr \<and>
     subseq (ts @ in_flight (br_propagator b)) (take (length arr - length (br_mImportQueue b)) arr) \<and>
     br_mGlobalSequenceNumber b = br_mGlobalSequenceNumber b0 + of_nat (length ts) \<and>
     renumbered (br_mGlobalSequenceNumber b0) ts = ns @ on_its_way (br_propagator b) \<and>
     suffix (br_mPublishQueue b) (ns @ on_its_way (br_propagator b)) \<and>
     suffix (map snd (br_mDataPacketStoreQueue b)) ns \<and>
     mNumberOfPacketsPoppedFromImportQueue (br_mMetrics b) =
       mNumberOfPacketsPoppedFromImportQueue (br_mMetrics b0) +
       of_nat (length arr - length (br_mImportQueue b) - length (ts @ in_flight (br_propagator b)))"

lemma suffix_drop_append: "suffix q xs \<Longrightarrow> suffix (drop n q @ ys) (xs @ ys)"
  by (metis same_suffix_suffix suffix_drop suffix_order.trans)

lemma subseq_take_mono: "subseq ts (take m xs) \<Longrightarrow> m \<le> n \<Longrightarrow> subseq ts (take n xs)"
  by (metis le_iff_add list_emb_prefix take_add)

lemma pipeline_started:
  assumes "Broker_construct S options (Some store) m = Inr b0"
  shows "pipeline b0 [] [] [] (start b0)"
  using construct_members [OF assms] by (simp add: pipeline_def start_def)

lemma pipeline_invalid:
  assumes "pipeline b0 arr ts ns b" "\<not> is_valid p" "addPacketCallback p b = (e, b')"
  shows "pipeline b0 arr ts ns b'"
proof -
  from assms(2) obtain m where "isValid p = Inl m" by (cases "isValid p") (auto simp: is_valid_def)
  from addPacketCallback_invalid [OF this, of b] assms(1,3) show ?thesis
    by (auto simp: pipeline_def incrementNumberOfInvalidPacketsReceived_def
        incrementTotalNumberOfPacketsReceived_def)
qed

lemma pipeline_arrived:
  assumes inv: "pipeline b0 arr ts ns b" and v: "is_valid p" and max: "br_mMaximumImportQueueSize b = 8192"
    and cb: "addPacketCallback p b = (e, b')"
  shows "pipeline b0 (arr @ [p]) ts ns b'"
proof -
  from v obtain u where u: "isValid p = Inr u" by (auto simp: is_valid_def)
  let ?q = "br_mImportQueue b" and ?f = "in_flight (br_propagator b)" and ?k = "overflow b"
  have k: "?k \<le> length ?q" by (simp add: overflow_def max)
  have le: "length ?q \<le> length arr" using inv by (simp add: pipeline_def suffix_length_le)
  have sub: "subseq (ts @ ?f) (take (length arr - length ?q) arr)" using inv by (simp add: pipeline_def)
  have lt: "length (ts @ ?f) \<le> length arr - length ?q"
    using list_emb_length [OF sub] by simp
  have "subseq (ts @ ?f) (take (length arr - (length ?q - ?k)) arr)"
    by (rule subseq_take_mono [OF sub]) simp
  moreover have "length (arr @ [p]) - length (drop ?k ?q @ [p]) = length arr - (length ?q - ?k)"
    using le k by simp
  moreover have "length arr - (length ?q - ?k) - length (ts @ ?f) =
      length arr - length ?q - length (ts @ ?f) + ?k"
    using le k lt by simp
  ultimately show ?thesis
    using inv suffix_drop_append [of ?q arr ?k "[p]"] cb max
    by (auto simp: pipeline_def addPacketCallback_valid [OF u] incrementNumberOfInvalidPacketsReceived_def
        incrementTotalNumberOfPacketsReceived_def incrementNumberOfPacketsPoppedFromImportQueue_def)
qed


lemma pipeline_pop:
  assumes inv: "pipeline b0 arr ts ns b" and idle: "br_propagator b = Idle"
  shows "pipeline b0 arr ts ns (propagate_pop b)"
proof (cases "br_mImportQueue b")
  case Nil
  then show ?thesis using inv by (simp add: propagate_pop_def)
next
  case (Cons p q)
  from inv obtain hs where arr: "arr = hs @ p # q" and sub: "subseq ts hs"
    by (auto simp: pipeline_def Cons idle suffix_def)
  from sub have "subseq (ts @ [p]) (hs @ [p])" by simp
  moreover have "length ts \<le> length hs" using list_emb_length [OF sub] .
  moreover have "suffix q (hs @ p # q)" by (simp add: suffix_def)
  ultimately show ?thesis
    using inv by (auto simp: pipeline_def propagate_pop_def Cons idle arr Suc_diff_le)
qed

lemma pipeline_publish:
  assumes inv: "pipeline b0 arr ts ns b" and pr: "br_propagator b = Popped p"
  shows "pipeline b0 arr (ts @ [p]) ns (propagate_publish now p b)"
  using inv pr suffix_drop_append [of "br_mPublishQueue b" ns _
      "[set_sequence_number p (br_mGlobalSequenceNumber b + 1)]"]
  by (simp add: pipeline_def propagate_publish_def pop_while_drop Let_def add.assoc)

lemma pipeline_enqueue:
  assumes inv: "pipeline b0 arr ts ns b" and pr: "br_propagator b = Published t p"
  shows "pipeline b0 arr ts (ns @ [p]) (propagate_store t p b)"
  using assms suffix_drop_append [of "map snd (br_mDataPacketStoreQueue b)" ns _ "[p]"]
  by (auto simp: pipeline_def propagate_store_def pop_while_drop Let_def drop_map)

lemma pipeline_threads:
  assumes "broker_thread_step S b b'" "pipeline b0 arr ts ns b"
  shows "\<exists>ts' ns'. pipeline b0 arr ts' ns' b'"
  using assms
proof (cases rule: broker_thread_step.cases)
  case pop
  with assms(2) pipeline_pop show ?thesis by blast
next
  case publish
  with assms(2) pipeline_publish show ?thesis by blast
next
  case enqueue
  with assms(2) pipeline_enqueue show ?thesis by blast
next
  case (compact now r)
  with assms(2) have "pipeline b0 arr ts ns b'"
    by (auto simp: pipeline_def compact_round_def Let_def split: prod.splits)
  then show ?thesis by blast
next
  case (truncate_chunk d r s)
  with assms(2) have "pipeline b0 arr ts ns b'" unfolding pipeline_def by simp
  then show ?thesis by blast
next
  case stop
  with assms(2) have "pipeline b0 arr ts ns b'"
    using stop_step_frame [OF stop] by (simp add: pipeline_def)
  then show ?thesis by blast
qed

lemma broker_history_pipeline:
  assumes "Broker_construct S options (Some store) m = Inr b0" "broker_history S b0 arr b"
  shows "\<exists>ts ns. pipeline b0 arr ts ns b"
  using assms(2)
proof (induction rule: broker_history.induct)
  case started
  with pipeline_started [OF assms(1)] show ?case by blast
next
  case (arrived arr b p e b')
  have "br_mMaximumImportQueueSize b = 8192"
    using broker_reachable_inv [OF broker_history_reachable [OF arrived.hyps(1) assms(1)]]
    by (simp add: broker_inv_def)
  with arrived show ?case
    by (cases "is_valid p") (auto intro: pipeline_arrived pipeline_invalid)
next
  case (threads arr b b')
  with pipeline_threads show ?case by blast
qed

section \<open>A concrete run\<close>

lemma demo_run:
  obtains b0 b where "Broker_construct (RocksStore mem_rocks demo_ser) demo_broker_options
      (Some demo_store) MetricsSingleton_init = Inr b0"
    "broker_history (RocksStore mem_rocks demo_ser) b0 [demo_valid] b"
    "br_mGlobalSequenceNumber b0 = 5" "br_mGlobalSequenceNumber b = 6" "br_mImportQueue b = []"
    "br_mPublishQueue b = [set_sequence_number demo_valid 6]"
    "br_propagator b = Published 9 (set_sequence_number demo_valid 6)"
    "br_mDataPacketStore b = demo_store"
proof -
  let ?S = "RocksStore mem_rocks demo_ser"
  obtain b0 where b0: "Broker_construct ?S demo_broker_options (Some demo_store) MetricsSingleton_init = Inr b0"
      "demo_broker = start b0" "br_mGlobalSequenceNumber b0 = 5" by (rule demo_construct)
  obtain b1 where b1: "addPacketCallback demo_valid demo_broker = (None, b1)" "br_mImportQueue b1 = [demo_valid]"
      "br_propagator b1 = Idle" "br_mKeepRunning b1" "br_mPublishQueue b1 = []" "br_mGlobalSequenceNumber b1 = 5"
      "br_mDataPacketStore b1 = br_mDataPacketStore demo_broker"
    by (simp add: addPacketCallback_valid [OF isValid_demo_valid] overflow_def)
  have "is_valid demo_valid" using isValid_demo_valid unfolding is_valid_def by blast
  then have "broker_history ?S b0 [demo_valid] b1"
    using arrived [OF started b1(1) [unfolded b0(2)]] by fastforce
  then have h2: "broker_history ?S b0 [demo_valid] (propagate_pop b1)"
    by (rule threads) (rule broker_thread_step.pop [OF b1(4,3)])
  have p2: "br_propagator (propagate_pop b1) = Popped demo_valid" by (simp add: propagate_pop_def b1)
  have h3: "broker_history ?S b0 [demo_valid] (propagate_publish 9 demo_valid (propagate_pop b1))"
    by (rule threads [OF h2]) (rule broker_thread_step.publish [OF p2])
  have "br_mDataPacketStore demo_broker = demo_store"
    using construct_members [OF b0(1)] unfolding b0(2) by simp
  then show thesis
    by (intro that [OF b0(1) h3]) (simp_all add: b0(3) b1 propagate_pop_def propagate_publish_def Let_def)
qed

section \<open>Properties\<close>

text \<open>C10.  First in, first out.  Whatever the interleaving, the import queue is the end of the list of
  valid packets that arrived; the packets taken from it are, in order, some of those before; the
  publish queue is the end of the taken packets renumbered consecutively after the number the broker
  started with, and the store queue is the end of them too, but for one packet still on its way.\<close>

theorem broker_fifo:
  assumes "Broker_construct S options (Some store) m = Inr b0" "broker_history S b0 arr b"
  shows "\<exists>ts. suffix (br_mImportQueue b) arr \<and>
     subseq ts (take (length arr - length (br_mImportQueue b)) arr) \<and>
     br_mGlobalSequenceNumber b = br_mGlobalSequenceNumber b0 + of_nat (length ts) \<and>
     suffix (br_mPublishQueue b) (renumbered (br_mGlobalSequenceNumber b0) ts) \<and>
     suffix (map snd (br_mDataPacketStoreQueue b) @ on_its_way (br_propagator b))
       (renumbered (br_mGlobalSequenceNumber b0) ts)"
proof -
  from broker_history_pipeline [OF assms] obtain ts ns where p: "pipeline b0 arr ts ns b" by blast
  then have "subseq ts (take (length arr - length (br_mImportQueue b)) arr)"
    using subseq_order.trans [OF subseq_rev_drop_many [OF subseq_order.refl, of ts]]
    unfolding pipeline_def by blast
  with p show ?thesis by (auto simp: pipeline_def)
qed

theorem broker_fifo_witness:
  "\<exists>b0 b ts. broker_history (RocksStore mem_rocks demo_ser) b0 [demo_valid] b \<and>
     br_mPublishQueue b = [set_sequence_number demo_valid 6] \<and> subseq ts [demo_valid] \<and>
     suffix (br_mPublishQueue b) (renumbered 5 ts)"
proof -
  obtain b0 b where r: "Broker_construct (RocksStore mem_rocks demo_ser) demo_broker_options
      (Some demo_store) MetricsSingleton_init = Inr b0"
    "broker_history (RocksStore mem_rocks demo_ser) b0 [demo_valid] b"
    "br_mGlobalSequenceNumber b0 = 5" "br_mImportQueue b = []"
    "br_mPublishQueue b = [set_sequence_number demo_valid 6]" by (rule demo_run)
  from broker_fifo [OF r(1,2)] r(3-5) obtain ts where
    "subseq ts [demo_valid]" "suffix (br_mPublishQueue b) (renumbered 5 ts)" by auto
  with r(2,5) show ?thesis by blast
qed

text \<open>C11.  Conservation.  Modulo the width of the counters, every valid packet that arrived is in the import
  queue, was dropped from it and counted as popped, is in the hands of the propagator, or was given
  a sequence number.\<close>

theorem broker_conservation:
  assumes "Broker_construct S options (Some store) m = Inr b0" "broker_history S b0 arr b"
  shows "(of_nat (length arr) :: u64) =
     of_nat (length (br_mImportQueue b)) +
     (mNumberOfPacketsPoppedFromImportQueue (br_mMetrics b) -
        mNumberOfPacketsPoppedFromImportQueue (br_mMetrics b0)) +
     (case br_propagator b of Popped p \<Rightarrow> 1 | _ \<Rightarrow> 0) +
     (br_mGlobalSequenceNumber b - br_mGlobalSequenceNumber b0)"
proof -
  from broker_history_pipeline [OF assms] obtain ts ns where p: "pipeline b0 arr ts ns b" by blast
  let ?n = "length arr - length (br_mImportQueue b)" and ?t = "length (ts @ in_flight (br_propagator b))"
  have "length (br_mImportQueue b) \<le> length arr" "?t \<le> ?n"
    using p suffix_length_le list_emb_length by (fastforce simp: pipeline_def)+
  then have "length arr = length (br_mImportQueue b) + (?n - ?t) + ?t" by linarith
  then have "(of_nat (length arr) :: u64) = of_nat (length (br_mImportQueue b)) + of_nat (?n - ?t) + of_nat ?t"
    by (metis of_nat_add)
  with p show ?thesis by (auto simp: pipeline_def split: propagator.split)
qed

theorem broker_conservation_witness:
  "\<exists>b0 b. br_mImportQueue b = [] \<and> br_mGlobalSequenceNumber b - br_mGlobalSequenceNumber b0 = 1 \<and>
     mNumberOfPacketsPoppedFromImportQueue (br_mMetrics b) =
       mNumberOfPacketsPoppedFromImportQueue (br_mMetrics (b0 :: mem_db RocksDatabase Broker)) \<and>
     broker_history (RocksStore mem_rocks demo_ser) b0 [demo_valid] b"
proof -
  obtain b0 b where r: "Broker_construct (RocksStore mem_rocks demo_ser) demo_broker_options
      (Some demo_store) MetricsSingleton_init = Inr b0"
    "broker_history (RocksStore mem_rocks demo_ser) b0 [demo_valid] b"
    "br_mGlobalSequenceNumber b0 = 5" "br_mGlobalSequenceNumber b = 6" "br_mImportQueue b = []"
    "br_propagator b = Published 9 (set_sequence_number demo_valid 6)" by (rule demo_run)
  from broker_conservation [OF r(1,2)] r show ?thesis
    by (intro exI [of _ b0] exI [of _ b]) simp
qed

end
