(* ===== verification/Broker_Sessions.thy ===== *)
theory Broker_Sessions
  imports Broker_Pipeline
begin

text \<open>
  The composition of the publish service with the broker: any number of concurrent sessions, whose
  handlers interleave with each other and with the threads of the broker that takes their packets.
  The service is one that has been started with the broker's callback.  The two components touch
  different members of the metrics singleton, except for the utilization, about which nothing is
  said here.
\<close>

section \<open>Runs of the composed system\<close>

text \<open>With all valid packets that arrived at the broker and, for each open call, the packets gRPC read
  for it, valid or not, in their order.  The handlers that do not read keep the backend; the calls they
  remove are forgotten.\<close>

inductive session_run ::
  "'s IDataPacketStore \<Rightarrow> 's Broker \<Rightarrow> Packet list \<Rightarrow> (nat \<Rightarrow> Packet list) \<Rightarrow> 's Broker PublishSystem \<Rightarrow> bool"
  for S b0 where
  opened: "start_listening build (p, m) = Some (Inr (sy_service s, sy_metrics s)) \<Longrightarrow>
     sy_readers s = Map.empty \<Longrightarrow> sy_backend s = start b0 \<Longrightarrow> session_run S b0 [] (\<lambda>i. []) s"
| handled: "session_run S b0 arr sent s \<Longrightarrow> handler_step s s' \<Longrightarrow>
     session_run S b0 arr (\<lambda>i. if sy_readers s' i = None then [] else sent i) s'"
| received: "session_run S b0 arr sent s \<Longrightarrow> read_step addPacketCallback i ok p s s' \<Longrightarrow>
     session_run S b0 (arr @ (if ok \<and> is_valid p then [p] else []))
       (sent(i := sent i @ (if ok then [p] else []))) s'"
| threads: "session_run S b0 arr sent s \<Longrightarrow> broker_thread_step S (sy_backend s) b \<Longrightarrow>
     session_run S b0 arr sent (s\<lparr>sy_backend := b\<rparr>)"

section \<open>Each component keeps its invariant\<close>

lemma OnReadDone_backend:
  assumes "OnReadDone addPacketCallback k ok p (r, b) = (r', b')"
  shows "if ok then \<exists>e. addPacketCallback p b = (e, b') else b' = b"
  using assms by (cases "addPacketCallback p b")
    (auto simp: OnReadDone_def Let_def split: if_splits option.splits exn.splits)

lemma handler_step_backend [simp]: "handler_step s s' \<Longrightarrow> sy_backend s' = sy_backend s"
  by (induction rule: handler_step.induct) (simp_all add: set_count_def)

lemma session_run_history: "session_run S b0 arr sent s \<Longrightarrow> broker_history S b0 arr (sy_backend s)"
proof (induction rule: session_run.induct)
  case (opened build p m s)
  then show ?case using started by simp
next
  case (received arr sent s i ok p s')
  from received.hyps(2) obtain r r' b where
    "OnReadDone addPacketCallback (ps_mKeepRunning (sy_service s)) ok p (r, sy_backend s) = (r', b)"
    "sy_backend s' = b" by (auto elim!: read_stepE)
  note backend = OnReadDone_backend [OF this(1)] this(2)
  show ?case
  proof (cases ok)
    case True
    with backend obtain e where "addPacketCallback p (sy_backend s) = (e, sy_backend s')" by auto
    from arrived [OF received.IH this] True show ?thesis by simp
  next
    case False
    with backend received show ?thesis by simp
  qed
next
  case (threads arr sent s b)
  then show ?case by (simp add: broker_history.threads)
qed simp

lemma publish_inv_backend [simp]: "publish_inv (s\<lparr>sy_backend := b\<rparr>) = publish_inv s"
  by (simp add: publish_inv_def)

lemma session_run_publish_inv: "session_run S b0 arr sent s \<Longrightarrow> publish_inv s"
proof (induction rule: session_run.induct)
  case (opened build p m s)
  then have "publish_reachable addPacketCallback s" by (blast intro: publish_reachable.started)
  then show ?case by (rule publish_reachable_inv)
qed (simp_all add: handler_step_inv read_step_inv)

section \<open>What a call is told\<close>

definition acknowledged :: "Packet list \<Rightarrow> LastPacketIdentifier" where
  "acknowledged ps = (if ps = [] then empty_last_packet else identifier_of (last ps))"

definition reader_truth :: "phase \<Rightarrow> Packet list \<Rightarrow> AsynchronousReader \<Rightarrow> bool" where
  "reader_truth ph ps r \<longleftrightarrow>
     ar_mLastPacketIdentifier r = acknowledged (filter is_valid ps) \<and>
     ar_mTotalPackets r = of_nat (length ps) \<and>
     ar_mInvalidPackets r = of_nat (length (filter (\<lambda>p. \<not> is_valid p) ps)) \<and>
     (ar_mResponse r = empty_response \<or> ph = Finishing \<and>
      ar_mResponse r = \<lparr>pr_total_packets = of_nat (length ps),
        pr_invalid_packets = of_nat (length (filter (\<lambda>p. \<not> is_valid p) ps)),
        pr_last_packet_identifier = Some (acknowledged (filter is_valid ps))\<rparr>)"

lemma reader_truth_init: "reader_truth ph [] (reader_init options)"
  by (simp add: reader_truth_def acknowledged_def) (simp add: reader_init_def)

lemma reader_truth_call [simp]: "reader_truth ph ps (call c r) = reader_truth ph ps r"
  by (simp add: reader_truth_def)

lemma reader_truth_registered [simp]:
  "reader_truth ph ps (r\<lparr>ar_mRegistered := x\<rparr>) = reader_truth ph ps r"
  by (simp add: reader_truth_def)

lemma reader_truth_phase: "reader_truth Reading ps r \<Longrightarrow> reader_truth ph ps r"
  by (auto simp: reader_truth_def)

lemma addPacketCallback_outcome:
  "addPacketCallback p b = (e, b') \<Longrightarrow> outcome_of e = (if is_valid p then Accepted else Invalid)"
  using broker_landing.outcome [of p b] by simp

lemma reader_truth_read:
  assumes "reader_truth Reading ps r" "OnReadDone addPacketCallback k ok p (r, b) = (r', b')"
  shows "reader_truth (phase_after r') (ps @ (if ok then [p] else [])) r'"
proof (cases ok)
  case False
  with assms show ?thesis
    by (auto simp: OnReadDone_def Let_def reader_truth_def phase_after_def call_def empty_response_def split: if_splits)
next
  case True
  obtain e b'' where cb: "addPacketCallback p b = (e, b'')" by force
  show ?thesis
  proof (cases "isValid p")
    case (Inl m)
    then have "\<not> is_valid p" by (simp add: is_valid_def)
    with assms True show ?thesis
      by (auto simp: OnReadDone_def addPacketCallback_invalid [OF Inl] Let_def next_read_def
          reader_truth_def split: if_splits)
  next
    case (Inr u)
    then have "is_valid p" by (auto simp: is_valid_def)
    moreover have "fst (addPacketCallback p b) = None"
      using Inr by (simp add: addPacketCallback_def Let_def split: prod.split)
    ultimately show ?thesis
      using assms True cb by (auto simp: OnReadDone_def Let_def next_read_def
          reader_truth_def acknowledged_def identifier_of_def)
  qed
qed

definition calls_truth :: "Packet list \<Rightarrow> (nat \<Rightarrow> Packet list) \<Rightarrow> 's Broker PublishSystem \<Rightarrow> bool" where
  "calls_truth arr sent s \<longleftrightarrow> (\<forall>i. subseq (filter is_valid (sent i)) arr \<and>
     (case sy_readers s i of None \<Rightarrow> sent i = [] | Some (ph, r) \<Rightarrow> reader_truth ph (sent i) r))"

lemma calls_truth_handler:
  assumes "calls_truth arr sent s" "handler_step s s'"
  shows "calls_truth arr (\<lambda>i. if sy_readers s' i = None then [] else sent i) s'"
  using assms(2,1)
proof (induction rule: handler_step.induct)
  case (construct s i md admitted r)
  have "sent i = []" using construct.prems construct.hyps(1) by (auto simp: calls_truth_def dest: spec [of _ i])
  moreover have "reader_truth ph [] r" for ph
    using construct.hyps(2) reader_truth_init
    by (auto simp: reader_admit_def Let_def split: if_splits sum.splits option.splits)
  ultimately show ?case using construct.prems by (auto simp: calls_truth_def split: option.splits)
next
  case (register s i r r' n m)
  have "reader_truth Admitted (sent i) r"
    using register.prems register.hyps(1) by (auto simp: calls_truth_def dest: spec [of _ i])
  moreover have "r' = call (if ps_mKeepRunning (sy_service s) then StartRead else Finish OK [])
      (r\<lparr>ar_mRegistered := True\<rparr>)"
    using register.hyps(2) by (auto simp: reader_register_def Let_def count_and_metrics_def)
  ultimately have "reader_truth (phase_after r') (sent i) r'" by (auto simp: reader_truth_def)
  with register.prems show ?case by (auto simp: calls_truth_def split: option.splits)
next
  case (finished s i r n m)
  then show ?case by (auto simp: calls_truth_def split: option.splits)
next
  case (cancelled s i ph r)
  then show ?case by (auto simp: calls_truth_def OnCancel_def split: option.splits)
next
  case (stopping s)
  then show ?case by (auto simp: calls_truth_def split: option.splits)
qed

lemma session_run_truth: "session_run S b0 arr sent s \<Longrightarrow> calls_truth arr sent s"
proof (induction rule: session_run.induct)
  case (opened build p m s)
  then show ?case by (simp add: calls_truth_def)
next
  case (handled arr sent s s')
  then show ?case using calls_truth_handler by blast
next
  case (received arr sent s i ok p s')
  from received.hyps(2) obtain r r' b where r: "sy_readers s i = Some (Reading, r)"
    "OnReadDone addPacketCallback (ps_mKeepRunning (sy_service s)) ok p (r, sy_backend s) = (r', b)"
    "sy_readers s' = (sy_readers s)(i \<mapsto> (phase_after r', r'))" by (auto elim!: read_stepE)
  have "reader_truth Reading (sent i) r"
    using received.IH r(1) by (auto simp: calls_truth_def dest: spec [of _ i])
  note reader_truth_read [OF this r(2)]
  with received.IH r(3) show ?case
    by (auto simp: calls_truth_def split: option.splits)
next
  case (threads arr sent s b)
  then show ?case by (simp add: calls_truth_def)
qed

text \<open>A call that ends well after reading has filled its response.\<close>

definition answered :: "phase \<Rightarrow> Packet list \<Rightarrow> AsynchronousReader \<Rightarrow> bool" where
  "answered ph ps r \<longleftrightarrow> (ph = Admitted \<longrightarrow> ps = []) \<and>
     (ph = Finishing \<and> last (ar_calls r) = Finish OK [] \<and> ps \<noteq> [] \<longrightarrow> ar_mResponse r \<noteq> empty_response)"

lemma answered_Nil [simp]: "answered ph [] r"
  by (simp add: answered_def)

lemma answered_read:
  assumes "OnReadDone cb k ok p (r, b) = (r', b')"
  shows "answered (phase_after r') ps r'"
proof -
  have "last (ar_calls r') = Finish OK [] \<Longrightarrow> pr_last_packet_identifier (ar_mResponse r') \<noteq> None"
    using assms by (cases "cb p b")
      (auto simp: OnReadDone_def Let_def next_read_def call_def split: if_splits option.splits exn.splits)
  then show ?thesis by (auto simp: answered_def phase_after_def empty_response_def)
qed

definition calls_answered :: "(nat \<Rightarrow> Packet list) \<Rightarrow> 's Broker PublishSystem \<Rightarrow> bool" where
  "calls_answered sent s \<longleftrightarrow> (\<forall>i ph r. sy_readers s i = Some (ph, r) \<longrightarrow> answered ph (sent i) r)"

lemma calls_answered_handler:
  assumes "calls_answered sent s" "calls_truth arr sent s" "handler_step s s'"
  shows "calls_answered (\<lambda>i. if sy_readers s' i = None then [] else sent i) s'"
  using assms(3,1,2)
proof (induction rule: handler_step.induct)
  case (construct s i md admitted r)
  then have "sent i = []" by (auto simp: calls_truth_def dest: spec [of _ i])
  with construct.prems show ?case by (auto simp: calls_answered_def)
next
  case (register s i r r' n m)
  then have "sent i = []" by (auto simp: calls_answered_def answered_def)
  with register.prems show ?case by (auto simp: calls_answered_def)
qed (auto simp: calls_answered_def OnCancel_def)

lemma session_run_answered: "session_run S b0 arr sent s \<Longrightarrow> calls_answered sent s"
proof (induction rule: session_run.induct)
  case (handled arr sent s s')
  then show ?case using calls_answered_handler session_run_truth by blast
next
  case (received arr sent s i ok p s')
  then show ?case by (auto elim!: read_stepE simp: calls_answered_def answered_read)
qed (simp_all add: calls_answered_def)

section \<open>Properties\<close>

text \<open>C13.  Acknowledgements are true under concurrency.  In every interleaving of sessions with each
  other and with the broker's threads, the valid ones of the packets read for a call are, in their
  order, among those that arrived at the broker; the call has counted each packet read for it once,
  and as invalid exactly those that are; a call that has read packets and ends with \<open>OK\<close> has
  filled its response; and a filled response has the number of packets read, the number of invalid
  ones (as 64-bit words), and names the last valid one.  The arrivals
  are those of a history of the broker alone, so what holds of every broker history (theorems
  \<open>broker_fifo\<close>, \<open>broker_conservation\<close>) holds behind the service.\<close>

theorem concurrent_sessions_acknowledged:
  assumes "session_run S b0 arr sent s"
  shows "broker_history S b0 arr (sy_backend s) \<and>
    (\<forall>i ph r. sy_readers s i = Some (ph, r) \<longrightarrow>
      (let delivered = filter is_valid (sent i); refused = filter (\<lambda>p. \<not> is_valid p) (sent i) in
       subseq delivered arr \<and>
       ar_mTotalPackets r = of_nat (length (sent i)) \<and>
       ar_mInvalidPackets r = of_nat (length refused) \<and>
       (ph = Finishing \<and> last (ar_calls r) = Finish OK [] \<and> sent i \<noteq> [] \<longrightarrow> ar_mResponse r \<noteq> empty_response) \<and>
       (ar_mResponse r \<noteq> empty_response \<longrightarrow> ar_mResponse r =
          \<lparr>pr_total_packets = of_nat (length (sent i)), pr_invalid_packets = of_nat (length refused),
           pr_last_packet_identifier = Some (if delivered = [] then empty_last_packet
                                             else identifier_of (last delivered))\<rparr>)))"
proof (intro conjI allI impI)
  show "broker_history S b0 arr (sy_backend s)" by (rule session_run_history [OF assms])
  fix i ph r assume i: "sy_readers s i = Some (ph, r)"
  note session_run_truth [OF assms, unfolded calls_truth_def, rule_format, of i]
  with i have "subseq (filter is_valid (sent i)) arr" "reader_truth ph (sent i) r" by simp_all
  moreover have "answered ph (sent i) r"
    using session_run_answered [OF assms, unfolded calls_answered_def] i by blast
  ultimately show "let delivered = filter is_valid (sent i); refused = filter (\<lambda>p. \<not> is_valid p) (sent i) in
       subseq delivered arr \<and>
       ar_mTotalPackets r = of_nat (length (sent i)) \<and>
       ar_mInvalidPackets r = of_nat (length refused) \<and>
       (ph = Finishing \<and> last (ar_calls r) = Finish OK [] \<and> sent i \<noteq> [] \<longrightarrow> ar_mResponse r \<noteq> empty_response) \<and>
       (ar_mResponse r \<noteq> empty_response \<longrightarrow> ar_mResponse r =
          \<lparr>pr_total_packets = of_nat (length (sent i)), pr_invalid_packets = of_nat (length refused),
           pr_last_packet_identifier = Some (if delivered = [] then empty_last_packet
                                             else identifier_of (last delivered))\<rparr>)"
    unfolding Let_def reader_truth_def acknowledged_def answered_def by blast
qed

lemma demo_listening:
  "start_listening (\<lambda>c. True) (demo_service, MetricsSingleton_init) = Some (Inr (demo_service, demo_metrics 0))"
  by (simp add: start_listening_def demo_service_def getGRPCOptions_def Let_def
      server_config_def demo_publish_options_def setGRPCOptions_def)

lemma session_read:
  assumes "session_run S b0 arr sent s" "sy_readers s i = Some (Reading, r)"
    and "OnReadDone addPacketCallback (ps_mKeepRunning (sy_service s)) ok p (r, sy_backend s) = (r', b)"
  shows "session_run S b0 (arr @ (if ok \<and> is_valid p then [p] else [])) (sent(i := sent i @ (if ok then [p] else [])))
    (s\<lparr>sy_readers := (sy_readers s)(i \<mapsto> (phase_after r', r')), sy_backend := b\<rparr>)"
  by (rule received [OF assms(1)], rule read_step.read [OF assms(2,3)])

text \<open>A call that sends a valid packet and an invalid one, and ends.\<close>

theorem concurrent_sessions_acknowledged_witness:
  "\<exists>b0 s r. session_run (RocksStore mem_rocks demo_ser) b0 [demo_valid] ((\<lambda>i. [])(3 := [demo_valid, empty_packet])) s \<and>
     sy_readers s 3 = Some (Finishing, r) \<and>
     ar_mResponse r = \<lparr>pr_total_packets = 2, pr_invalid_packets = 1,
       pr_last_packet_identifier = Some (identifier_of demo_valid)\<rparr> \<and>
     broker_history (RocksStore mem_rocks demo_ser) b0 [demo_valid] (sy_backend s)"
proof -
  let ?S = "RocksStore mem_rocks demo_ser"
  let ?md = "[(''x-custom-auth-token'', ''secret'')]" and ?r = "reader_init demo_publish_options"
  obtain b0 where b0: "demo_broker = start b0" by (rule demo_construct)
  let ?s0 = "\<lparr>sy_service = demo_service, sy_metrics = demo_metrics 0, sy_readers = Map.empty,
     sy_backend = demo_broker\<rparr>"
  have 0: "session_run ?S b0 [] (\<lambda>i. []) ?s0"
    by (rule opened [of "\<lambda>c. True" demo_service MetricsSingleton_init]) (simp_all add: demo_listening b0)
  have "reader_admit demo_publish_options ?md 0 True = Inr (True, ?r)"
    by (simp add: reader_admit_cases authorized_def)
  then have 1: "session_run ?S b0 [] (\<lambda>i. []) (?s0\<lparr>sy_readers := [3 \<mapsto> (Admitted, ?r)]\<rparr>)" (is "session_run _ _ _ _ ?s1")
    using handled [OF 0 handler_step.construct [of ?s0 3 ?md True ?r]] by (simp add: demo_service_def)
  obtain r1 n1 m1 where reg: "reader_register True ?r (count_and_metrics ?s1) = (r1, n1, m1)"
    by (metis prod_cases3)
  then have r1: "r1 = call StartRead (?r\<lparr>ar_mRegistered := True\<rparr>)"
    by (simp add: reader_register_def Let_def count_and_metrics_def)
  let ?s2 = "set_count n1 m1 (?s1\<lparr>sy_readers := [3 \<mapsto> (Reading, r1)]\<rparr>)"
  have 2: "session_run ?S b0 [] (\<lambda>i. []) ?s2"
    using handled [OF 1 handler_step.register [of ?s1 3 ?r r1 n1 m1]] reg
    by (simp add: demo_service_def phase_after_def r1)
  have run: "ps_mKeepRunning (sy_service ?s2)" by (simp add: set_count_def demo_service_def)
  have v: "is_valid demo_valid" using isValid_demo_valid unfolding is_valid_def by blast
  obtain e where e: "isValid empty_packet = Inl e"
    by (simp add: isValid_def empty_packet_def stream_identifier_def empty_identifier_def)
  then have nv: "\<not> is_valid empty_packet" by (simp add: is_valid_def)
  obtain r2 b2 where read: "OnReadDone addPacketCallback True True demo_valid (r1, demo_broker) = (r2, b2)"
    by force
  then have r2: "phase_after r2 = Reading" "ar_mInvalidMessageCounter r2 = 0"
      "ar_mMaximumConsecutiveInvalidMessages r2 = 1" "ar_mResponse r2 = empty_response"
    by (auto simp: OnReadDone_def addPacketCallback_valid [OF isValid_demo_valid] overflow_def
        Let_def phase_after_def call_def next_read_def r1 reader_init_def)
  from session_read [OF 2, of 3 r1 True demo_valid r2 b2] read run v
  obtain s3 where 3: "session_run ?S b0 [demo_valid] ((\<lambda>i. [])(3 := [demo_valid])) s3"
    "sy_readers s3 3 = Some (Reading, r2)" "sy_backend s3 = b2" "ps_mKeepRunning (sy_service s3)"
    by (simp add: r2 set_count_def)
  obtain r3 b3 where bad: "OnReadDone addPacketCallback True True empty_packet (r2, b2) = (r3, b3)"
    by force
  then have r3: "phase_after r3 = Reading" "ar_mResponse r3 = empty_response"
    using r2 by (auto simp: OnReadDone_def addPacketCallback_invalid [OF e] count_invalid_def
        Let_def phase_after_def call_def next_read_def split: if_splits)
  from session_read [OF 3(1,2), of True empty_packet r3 b3] 3 bad nv
  obtain s4 where 4: "session_run ?S b0 [demo_valid] ((\<lambda>i. [])(3 := [demo_valid, empty_packet])) s4"
    "sy_readers s4 3 = Some (Reading, r3)" "sy_backend s4 = b3" "ps_mKeepRunning (sy_service s4)"
    by (simp add: r3)
  obtain r4 b4 where end_: "OnReadDone addPacketCallback True False empty_packet (r3, b3) = (r4, b4)"
    by force
  then have r4: "phase_after r4 = Finishing" "last (ar_calls r4) = Finish OK []"
    by (auto simp: OnReadDone_def Let_def phase_after_def call_def)
  from session_read [OF 4(1,2), of False empty_packet r4 b4] 4 end_
  obtain s where s: "session_run ?S b0 [demo_valid] ((\<lambda>i. [])(3 := [demo_valid, empty_packet])) s"
    "sy_readers s 3 = Some (Finishing, r4)"
    by (simp add: r4)
  note truth = concurrent_sessions_acknowledged [OF s(1), THEN conjunct2, rule_format, OF s(2)]
  have "ar_mResponse r4 = \<lparr>pr_total_packets = 2, pr_invalid_packets = 1,
       pr_last_packet_identifier = Some (identifier_of demo_valid)\<rparr>"
    using truth r4(2) v nv by (simp add: Let_def)
  with concurrent_sessions_acknowledged [OF s(1)] s show ?thesis by blast
qed

end
