(* ===== verification/Broker_Liveness.thy ===== *)
theory Broker_Liveness
  imports Broker_Pipeline
begin

text \<open>
  Progress of the running broker: when the propagator thread is not starved, every packet that
  arrives leaves the import queue, and unless it is pushed out by an overflow it is numbered and reaches
  both outgoing queues.
\<close>

section \<open>Fair runs\<close>

text \<open>The steps of the propagator thread, among those of the threads.\<close>

inductive propagator_step :: "'s Broker \<Rightarrow> 's Broker \<Rightarrow> bool" where
  pop: "br_mKeepRunning b \<Longrightarrow> br_propagator b = Idle \<Longrightarrow> propagator_step b (propagate_pop b)"
| publish: "br_propagator b = Popped p \<Longrightarrow> propagator_step b (propagate_publish now p b)"
| enqueue: "br_propagator b = Published t p \<Longrightarrow> propagator_step b (propagate_store t p b)"

inductive_cases propagator_stepE: "propagator_step b b'"

text \<open>An endless run of the broker \<open>b0\<close> after \<open>start\<close>: at each time a packet arrives, or a thread makes a
  step; it is fair when the propagator makes a step again and again.  Stopping the broker ends the
  propagator, so a fair run is one in which the broker is not stopped.\<close>

definition broker_event ::
  "'s IDataPacketStore \<Rightarrow> Packet option \<Rightarrow> 's Broker \<Rightarrow> 's Broker \<Rightarrow> bool" where
  "broker_event S ev b b' =
     (case ev of Some p \<Rightarrow> b' = snd (addPacketCallback p b) | None \<Rightarrow> broker_thread_step S b b')"

definition fair_run ::
  "'s IDataPacketStore \<Rightarrow> 's Broker \<Rightarrow> (nat \<Rightarrow> Packet option) \<Rightarrow> (nat \<Rightarrow> 's Broker) \<Rightarrow> bool" where
  "fair_run S b0 ev b \<longleftrightarrow> b 0 = start b0 \<and> (\<forall>n. broker_event S (ev n) (b n) (b (Suc n))) \<and>
     (\<forall>n. \<exists>m\<ge>n. ev m = None \<and> propagator_step (b m) (b (Suc m)))"

text \<open>The valid packets that arrived before a time, and how many of them have left the import queue.\<close>

primrec arrivals :: "(nat \<Rightarrow> Packet option) \<Rightarrow> nat \<Rightarrow> Packet list" where
  "arrivals ev 0 = []"
| "arrivals ev (Suc n) = arrivals ev n @
     (case ev n of Some p \<Rightarrow> if is_valid p then [p] else [] | None \<Rightarrow> [])"

definition departed :: "(nat \<Rightarrow> Packet option) \<Rightarrow> (nat \<Rightarrow> 's Broker) \<Rightarrow> nat \<Rightarrow> nat" where
  "departed ev b n = length (arrivals ev n) - length (br_mImportQueue (b n))"

lemma prefix_arrivals: "n \<le> m \<Longrightarrow> prefix (arrivals ev n) (arrivals ev m)"
  by (induction m rule: dec_induct) (auto simp: prefix_def)

text \<open>A condition that a step either keeps or ends in the wanted way, and that the propagator ends, does
  end.\<close>

lemma ensures:
  assumes "P n" "\<And>m. n \<le> m \<Longrightarrow> P m \<Longrightarrow> P (Suc m) \<or> R m"
    and "\<And>n. \<exists>m\<ge>n. F m" "\<And>m. n \<le> m \<Longrightarrow> P m \<Longrightarrow> F m \<Longrightarrow> R m"
  shows "\<exists>m\<ge>n. P m \<and> R m"
proof (rule ccontr)
  assume none: "\<not> ?thesis"
  have "P m" if "n \<le> m" for m
    using that
  proof (induction m rule: dec_induct)
    case (step m)
    then show ?case using none assms(2) by blast
  qed (rule assms(1))
  then show False using none assms(3) [of n] assms(4) by blast
qed

section \<open>What a step does to the import queue and the propagator\<close>

lemma propagator_step_cases:
  assumes "broker_thread_step S b b'"
  shows "propagator_step b b' \<or> br_mImportQueue b' = br_mImportQueue b \<and> br_propagator b' = br_propagator b"
  using assms
proof (cases rule: broker_thread_step.cases)
  case stop
  with stop_step_frame show ?thesis by blast
qed (auto intro: propagator_step.intros simp: compact_round_def Let_def split: prod.splits)

lemma propagator_thread_step: "propagator_step b b' \<Longrightarrow> broker_thread_step S b b'"
  by (erule propagator_step.cases) (auto intro: broker_thread_step.intros)

lemma addPacketCallback_import:
  assumes "br_mMaximumImportQueueSize b = 8192"
  shows "br_mImportQueue (snd (addPacketCallback p b)) =
    (if is_valid p then drop (overflow b) (br_mImportQueue b) @ [p] else br_mImportQueue b)"
  using assms by (cases "isValid p") (auto simp: is_valid_def addPacketCallback_invalid addPacketCallback_valid)

lemma propagate_pop_simps:
  "br_mImportQueue (propagate_pop b) = tl (br_mImportQueue b)"
  "br_propagator (propagate_pop b) =
     (case br_mImportQueue b of [] \<Rightarrow> br_propagator b | p # q \<Rightarrow> Popped p)"
  by (simp_all add: propagate_pop_def split: list.split)

lemma propagate_publish_simps:
  "br_mImportQueue (propagate_publish now p b) = br_mImportQueue b"
  "br_propagator (propagate_publish now p b) =
     Published now (set_sequence_number p (br_mGlobalSequenceNumber b + 1))"
  "br_mGlobalSequenceNumber (propagate_publish now p b) = br_mGlobalSequenceNumber b + 1"
  "br_mPublishQueue (propagate_publish now p b) =
     drop (length (br_mPublishQueue b) + 1 - 4096) (br_mPublishQueue b) @
     [set_sequence_number p (br_mGlobalSequenceNumber b + 1)]"
  by (simp_all add: propagate_publish_def Let_def pop_while_drop)

lemma propagate_store_simps:
  "br_mImportQueue (propagate_store t p b) = br_mImportQueue b"
  "br_propagator (propagate_store t p b) = Idle"
  "br_mDataPacketStoreQueue (propagate_store t p b) =
     drop (length (br_mDataPacketStoreQueue b) + 1 - 4096) (br_mDataPacketStoreQueue b) @ [(t, p)]"
  by (simp_all add: propagate_store_def Let_def pop_while_drop)

section \<open>Progress\<close>

lemma fair_run_history: "fair_run S b0 ev b \<Longrightarrow> broker_history S b0 (arrivals ev n) (b n)"
proof (induction n)
  case 0
  then show ?case by (simp add: fair_run_def started)
next
  case (Suc n)
  then have h: "broker_history S b0 (arrivals ev n) (b n)" and e: "broker_event S (ev n) (b n) (b (Suc n))"
    by (auto simp: fair_run_def)
  show ?case
  proof (cases "ev n")
    case None
    with e threads [OF h] show ?thesis by (simp add: broker_event_def)
  next
    case (Some p)
    with e arrived [OF h, of p] show ?thesis
      by (cases "addPacketCallback p (b n)") (simp add: broker_event_def)
  qed
qed

lemma fair_run_queue:
  assumes "Broker_construct S options (Some store) m = Inr b0" "fair_run S b0 ev b"
  shows "suffix (br_mImportQueue (b n)) (arrivals ev n)" "br_mMaximumImportQueueSize (b n) = 8192"
proof -
  note h = fair_run_history [OF assms(2), of n]
  from broker_history_pipeline [OF assms(1) h] show "suffix (br_mImportQueue (b n)) (arrivals ev n)"
    by (auto simp: pipeline_def)
  from broker_reachable_inv [OF broker_history_reachable [OF h assms(1)]]
  show "br_mMaximumImportQueueSize (b n) = 8192" by (simp add: broker_inv_def)
qed

text \<open>One step of a run, with what it does to the number of departed packets.\<close>

lemma fair_run_step:
  assumes c: "Broker_construct S options (Some store) m = Inr b0" and run: "fair_run S b0 ev b"
  obtains (arrive) p where "ev n = Some p" "br_propagator (b (Suc n)) = br_propagator (b n)"
      "departed ev b (Suc n) = departed ev b n + (if is_valid p then overflow (b n) else 0)"
  | (move) "ev n = None" "propagator_step (b n) (b (Suc n))"
      "departed ev b (Suc n) = departed ev b n +
         (if br_propagator (b n) = Idle \<and> br_mImportQueue (b n) \<noteq> [] then 1 else 0)"
  | (other) "ev n = None" "br_propagator (b (Suc n)) = br_propagator (b n)"
      "departed ev b (Suc n) = departed ev b n"
proof -
  note q = fair_run_queue [OF c run, of n]
  have le: "length (br_mImportQueue (b n)) \<le> length (arrivals ev n)" using q(1) by (rule suffix_length_le)
  have e: "broker_event S (ev n) (b n) (b (Suc n))" using run by (simp add: fair_run_def)
  show thesis
  proof (cases "ev n")
    case (Some p)
    with e have b: "b (Suc n) = snd (addPacketCallback p (b n))" by (simp add: broker_event_def)
    have "br_propagator (b (Suc n)) = br_propagator (b n)"
      unfolding b by (cases "addPacketCallback p (b n)") (simp add: addPacketCallback_frame)
    moreover have "overflow (b n) \<le> length (br_mImportQueue (b n))" by (simp add: overflow_def q(2))
    then have "departed ev b (Suc n) = departed ev b n + (if is_valid p then overflow (b n) else 0)"
      using le by (simp add: departed_def b addPacketCallback_import [OF q(2)] Some)
    ultimately show thesis by (rule arrive [OF Some])
  next
    case None
    with e have t: "broker_thread_step S (b n) (b (Suc n))" by (simp add: broker_event_def)
    show thesis
    proof (cases "propagator_step (b n) (b (Suc n))")
      case True
      then have "departed ev b (Suc n) = departed ev b n +
         (if br_propagator (b n) = Idle \<and> br_mImportQueue (b n) \<noteq> [] then 1 else 0)"
        using le by (cases rule: propagator_step.cases; cases "br_mImportQueue (b n)")
          (simp_all add: departed_def None propagate_pop_simps propagate_publish_simps propagate_store_simps)
      with None True show thesis by (rule move)
    next
      case False
      with propagator_step_cases [OF t] show thesis
        by (intro other [OF None]) (simp_all add: departed_def None)
    qed
  qed
qed

lemma departed_mono:
  assumes "Broker_construct S options (Some store) m = Inr b0" "fair_run S b0 ev b"
  shows "n \<le> k \<Longrightarrow> departed ev b n \<le> departed ev b k"
proof (induction k rule: dec_induct)
  case (step k)
  then show ?case by (cases rule: fair_run_step [OF assms, of k]) auto
qed simp

text \<open>A packet taken from the queue is published, and then put into the store queue.\<close>

lemma popped_is_published:
  assumes "Broker_construct S options (Some store) m = Inr b0" "fair_run S b0 ev b"
    and "br_propagator (b n) = Popped p"
  shows "\<exists>k\<ge>n. \<exists>now. b (Suc k) = propagate_publish now p (b k)"
proof -
  have "\<exists>k\<ge>n. br_propagator (b k) = Popped p \<and> (\<exists>now. b (Suc k) = propagate_publish now p (b k))"
  proof (rule ensures [where F = "\<lambda>k. propagator_step (b k) (b (Suc k))"])
    show "br_propagator (b n) = Popped p" by fact
    fix k assume k: "br_propagator (b k) = Popped p"
    show pub: "\<exists>now. b (Suc k) = propagate_publish now p (b k)" if "propagator_step (b k) (b (Suc k))"
      using that k by (cases rule: propagator_step.cases) auto
    show "br_propagator (b (Suc k)) = Popped p \<or> (\<exists>now. b (Suc k) = propagate_publish now p (b k))"
      using k pub by (cases rule: fair_run_step [OF assms(1,2), of k]) auto
  qed (use assms(2) in \<open>auto simp: fair_run_def\<close>)
  then show ?thesis by blast
qed

lemma published_is_enqueued:
  assumes "Broker_construct S options (Some store) m = Inr b0" "fair_run S b0 ev b"
    and "br_propagator (b n) = Published t p"
  shows "\<exists>k\<ge>n. b (Suc k) = propagate_store t p (b k)"
proof -
  have "\<exists>k\<ge>n. br_propagator (b k) = Published t p \<and> b (Suc k) = propagate_store t p (b k)"
  proof (rule ensures [where F = "\<lambda>k. propagator_step (b k) (b (Suc k))"])
    show "br_propagator (b n) = Published t p" by fact
    fix k assume k: "br_propagator (b k) = Published t p"
    show enq: "b (Suc k) = propagate_store t p (b k)" if "propagator_step (b k) (b (Suc k))"
      using that k by (cases rule: propagator_step.cases) auto
    show "br_propagator (b (Suc k)) = Published t p \<or> b (Suc k) = propagate_store t p (b k)"
      using k enq by (cases rule: fair_run_step [OF assms(1,2), of k]) auto
  qed (use assms(2) in \<open>auto simp: fair_run_def\<close>)
  then show ?thesis by blast
qed

lemma propagator_idles:
  assumes "Broker_construct S options (Some store) m = Inr b0" "fair_run S b0 ev b"
  shows "\<exists>k\<ge>n. br_propagator (b k) = Idle"
proof (cases "br_propagator (b n)")
  case (Popped p)
  from popped_is_published [OF assms this] obtain k now where
    k: "n \<le> k" "b (Suc k) = propagate_publish now p (b k)" by blast
  from published_is_enqueued [OF assms, of "Suc k"] k(2) obtain t q l where
    "Suc k \<le> l" "b (Suc l) = propagate_store t q (b l)" by (metis propagate_publish_simps(2))
  with k(1) show ?thesis by (intro exI [of _ "Suc l"]) (simp add: propagate_store_simps)
next
  case (Published t p)
  from published_is_enqueued [OF assms this] obtain k where "n \<le> k" "b (Suc k) = propagate_store t p (b k)"
    by blast
  then show ?thesis by (intro exI [of _ "Suc k"]) (simp add: propagate_store_simps)
qed auto

text \<open>The import queue drains: as long as a packet that arrived is still in it, another one leaves.\<close>

lemma queue_departs:
  assumes "Broker_construct S options (Some store) m = Inr b0" "fair_run S b0 ev b"
    and "departed ev b n < length (arrivals ev n)"
  shows "\<exists>k\<ge>n. departed ev b n < departed ev b k"
proof -
  obtain k0 where k0: "n \<le> k0" "br_propagator (b k0) = Idle" using propagator_idles [OF assms(1,2)] by blast
  have waiting: "br_mImportQueue (b k) \<noteq> []" if "k0 \<le> k" "departed ev b k = departed ev b n" for k
  proof -
    have "length (arrivals ev n) \<le> length (arrivals ev k)"
      using prefix_length_le [OF prefix_arrivals] k0(1) that(1) by (meson order_trans)
    with that(2) assms(3) show ?thesis by (auto simp: departed_def)
  qed
  show ?thesis
  proof (cases "departed ev b n < departed ev b k0")
    case True
    with k0(1) show ?thesis by blast
  next
    case False
    with departed_mono [OF assms(1,2) k0(1)] have same: "departed ev b k0 = departed ev b n" by simp
    let ?P = "\<lambda>k. br_propagator (b k) = Idle \<and> departed ev b k = departed ev b n"
    let ?R = "\<lambda>k. departed ev b n < departed ev b (Suc k)"
    have "\<exists>k\<ge>k0. ?P k \<and> ?R k"
    proof (rule ensures [where F = "\<lambda>k. ev k = None \<and> propagator_step (b k) (b (Suc k))"])
      show "?P k0" using k0(2) same by simp
      fix k assume k: "k0 \<le> k" "?P k"
      note w = waiting [OF k(1) conjunct2 [OF k(2)]]
      show "?P (Suc k) \<or> ?R k"
        using k(2) w by (cases rule: fair_run_step [OF assms(1,2), of k]) auto
      show "?R k" if "ev k = None \<and> propagator_step (b k) (b (Suc k))"
      proof -
        from that k(2) w have "br_mImportQueue (b (Suc k)) = tl (br_mImportQueue (b k))"
          by (auto elim: propagator_stepE simp: propagate_pop_simps)
        moreover have "length (br_mImportQueue (b k)) \<le> length (arrivals ev k)"
          using fair_run_queue(1) [OF assms(1,2)] by (rule suffix_length_le)
        ultimately have "departed ev b (Suc k) = departed ev b k + 1"
          using that w by (cases "br_mImportQueue (b k)") (simp_all add: departed_def)
        with k(2) show ?thesis by simp
      qed
    qed (use assms(2) in \<open>auto simp: fair_run_def\<close>)
    with k0(1) show ?thesis by (meson le_SucI order_trans)
  qed
qed

lemma all_depart:
  assumes "Broker_construct S options (Some store) m = Inr b0" "fair_run S b0 ev b"
  shows "k \<le> length (arrivals ev n) \<Longrightarrow> \<exists>j\<ge>n. k \<le> departed ev b j"
proof (induction k)
  case (Suc k)
  then obtain j where j: "n \<le> j" "k \<le> departed ev b j" by auto
  have len: "length (arrivals ev n) \<le> length (arrivals ev j)"
    by (rule prefix_length_le [OF prefix_arrivals [OF j(1)]])
  show ?case
  proof (cases "k < departed ev b j")
    case True
    with j(1) show ?thesis by (intro exI [of _ j]) simp
  next
    case False
    with j(2) have k: "departed ev b j = k" by simp
    with Suc.prems len have "departed ev b j < length (arrivals ev j)" by simp
    from queue_departs [OF assms this] j(1) k show ?thesis by (metis Suc_leI order_trans)
  qed
qed auto

text \<open>The moment a packet departs.\<close>

lemma departure:
  assumes "Broker_construct S options (Some store) m = Inr b0" "fair_run S b0 ev b"
    and "k < length (arrivals ev n)"
  obtains i where "departed ev b i \<le> k" "k < departed ev b (Suc i)"
proof -
  obtain j where j: "k < departed ev b j" using all_depart [OF assms(1,2), of "Suc k" n] assms(3) by (auto simp: Suc_le_eq)
  have "departed ev b 0 \<le> k" by (simp add: departed_def)
  with ex_least_nat_less [of "\<lambda>i. k < departed ev b i" j] j obtain i where
    "\<not> k < departed ev b i" "k < departed ev b (Suc i)" by auto
  then show thesis by (intro that [of i]) simp_all
qed

text \<open>The head of the import queue is the packet that departs next.\<close>

lemma next_departure:
  assumes "Broker_construct S options (Some store) m = Inr b0" "fair_run S b0 ev b"
    and "br_mImportQueue (b i) = p # q" "departed ev b i < length (arrivals ev n)"
  shows "arrivals ev n ! departed ev b i = p"
proof -
  from fair_run_queue(1) [OF assms(1,2), of i] assms(3) obtain hs where
    hs: "arrivals ev i = hs @ p # q" by (auto simp: suffix_def)
  then have "departed ev b i = length hs" by (simp add: departed_def assms(3))
  with hs have i: "arrivals ev i ! departed ev b i = p" "departed ev b i < length (arrivals ev i)" by simp_all
  consider "prefix (arrivals ev i) (arrivals ev n)" | "prefix (arrivals ev n) (arrivals ev i)"
    by (metis linear prefix_arrivals)
  then show ?thesis using i assms(4) by cases (auto simp: prefix_def nth_append)
qed

section \<open>A concrete run\<close>

definition demo_event :: "nat \<Rightarrow> Packet option" where
  "demo_event n = (if n = 0 then Some demo_valid else None)"

fun demo_state :: "nat \<Rightarrow> mem_db RocksDatabase Broker" where
  "demo_state 0 = demo_broker"
| "demo_state (Suc 0) = snd (addPacketCallback demo_valid demo_broker)"
| "demo_state (Suc (Suc 0)) = propagate_pop (demo_state (Suc 0))"
| "demo_state (Suc (Suc (Suc 0))) = propagate_publish 9 demo_valid (demo_state (Suc (Suc 0)))"
| "demo_state (Suc (Suc (Suc (Suc n)))) =
     propagate_store 9 (set_sequence_number demo_valid 6) (demo_state (Suc (Suc (Suc 0))))"

lemma demo_fair_run:
  obtains b0 where "Broker_construct (RocksStore mem_rocks demo_ser) demo_broker_options
      (Some demo_store) MetricsSingleton_init = Inr b0"
    "fair_run (RocksStore mem_rocks demo_ser) b0 demo_event demo_state"
proof -
  let ?S = "RocksStore mem_rocks demo_ser"
  obtain b0 where b0: "Broker_construct ?S demo_broker_options (Some demo_store) MetricsSingleton_init = Inr b0"
      "demo_broker = start b0" "br_mGlobalSequenceNumber b0 = 5" by (rule demo_construct)
  obtain m where b1: "demo_state 1 = demo_broker\<lparr>br_mImportQueue := [demo_valid], br_mMetrics := m\<rparr>"
    by (simp add: addPacketCallback_valid [OF isValid_demo_valid] overflow_def)
  define b1 where "b1 = demo_state 1"
  define b2 where "b2 = propagate_pop b1"
  define b3 where "b3 = propagate_publish 9 demo_valid b2"
  define b4 where "b4 = propagate_store 9 (set_sequence_number demo_valid 6) b3"
  note defs = b1_def b2_def b3_def b4_def
  have s1: "br_mKeepRunning b1" "br_propagator b1 = Idle" "br_mImportQueue b1 = [demo_valid]"
    "br_mGlobalSequenceNumber b1 = 5" unfolding b1_def b1 by simp_all
  then have s2: "b2 = b1\<lparr>br_mImportQueue := [], br_propagator := Popped demo_valid\<rparr>"
    by (simp add: b2_def propagate_pop_def)
  have s3: "br_propagator b3 = Published 9 (set_sequence_number demo_valid 6)"
    "br_mImportQueue b3 = []" "br_mKeepRunning b3"
    using s1 by (simp_all add: b3_def s2 propagate_publish_def Let_def pop_while_drop)
  have s4: "br_propagator b4 = Idle" "br_mImportQueue b4 = []" "br_mKeepRunning b4"
    using s3 by (simp_all add: b4_def propagate_store_def Let_def pop_while_drop)
  have "propagator_step b4 (propagate_pop b4)" by (rule propagator_step.pop [OF s4(3,1)])
  then have p4: "propagator_step b4 b4" by (simp add: propagate_pop_def s4(2))
  have "br_propagator b2 = Popped demo_valid" by (simp add: s2)
  from propagator_step.publish [OF this, of 9] have p2: "propagator_step b2 b3" by (simp only: b3_def)
  from propagator_step.enqueue [OF s3(1)] have p3: "propagator_step b3 b4" by (simp only: b4_def)
  from propagator_step.pop [OF s1(1,2)] have p1: "propagator_step b1 b2" by (simp only: b2_def)
  have states: "demo_state (Suc 0) = b1" "demo_state (Suc (Suc 0)) = b2" "demo_state (Suc (Suc (Suc 0))) = b3"
    "demo_state (Suc (Suc (Suc (Suc n)))) = b4" for n by (simp_all add: defs)
  have step: "propagator_step (demo_state (Suc n)) (demo_state (Suc (Suc n)))" for n
  proof -
    consider "n = 0" | "n = Suc 0" | "n = Suc (Suc 0)" | k where "n = Suc (Suc (Suc k))"
      by (metis old.nat.exhaust)
    then show ?thesis using p1 p2 p3 p4 by cases (simp_all only: states)
  qed
  have "broker_event ?S (demo_event n) (demo_state n) (demo_state (Suc n))" for n
    using propagator_thread_step [OF step] by (cases n) (simp_all add: broker_event_def demo_event_def del: demo_state.simps(3-5))
  moreover have "\<exists>m\<ge>n. demo_event m = None \<and> propagator_step (demo_state m) (demo_state (Suc m))" for n
    using step [of n] by (intro exI [of _ "Suc n"]) (simp add: demo_event_def)
  ultimately show thesis using that [OF b0(1)] b0(2) by (simp add: fair_run_def)
qed

section \<open>Properties\<close>

text \<open>C12.  Every packet gets through or is pushed out.  In a fair run, under every interleaving of arrivals with the
  broker's threads, each valid packet that arrives either is pushed out of the import queue by a
  later arrival that finds more than 8192 packets there, or at some time is the newest packet of the publish queue, with the broker's current
  number, and later the newest one of the store queue with the same number.\<close>

theorem every_packet_gets_through:
  assumes "Broker_construct S options (Some store) m = Inr b0" "fair_run S b0 ev b"
    and "k < length (arrivals ev n)"
  shows "(\<exists>i. ev i \<noteq> None \<and> 8192 < length (br_mImportQueue (b i)) \<and> departed ev b i \<le> k \<and> k < departed ev b (Suc i)) \<or>
    (\<exists>i j t ps qs. i < j \<and>
       br_mPublishQueue (b i) = ps @ [set_sequence_number (arrivals ev n ! k) (br_mGlobalSequenceNumber (b i))] \<and>
       br_mDataPacketStoreQueue (b j) =
         qs @ [(t, set_sequence_number (arrivals ev n ! k) (br_mGlobalSequenceNumber (b i)))])"
proof -
  obtain i where i: "departed ev b i \<le> k" "k < departed ev b (Suc i)" by (rule departure [OF assms])
  show ?thesis
  proof (cases "ev i")
    case (Some p)
    with i have "0 < overflow (b i)"
      by (cases rule: fair_run_step [OF assms(1,2), of i]) (auto split: if_splits)
    with i Some show ?thesis
      by (auto simp: overflow_def fair_run_queue(2) [OF assms(1,2)] split: if_splits)
  next
    case None
    with i have idle: "br_propagator (b i) = Idle" "br_mImportQueue (b i) \<noteq> []" "departed ev b i = k"
      and step: "propagator_step (b i) (b (Suc i))"
      by (cases rule: fair_run_step [OF assms(1,2), of i]; simp split: if_splits)+
    then obtain p q where q: "br_mImportQueue (b i) = p # q" by (meson neq_Nil_conv)
    from next_departure [OF assms(1,2) q, of n] idle(3) assms(3) have p: "arrivals ev n ! k = p" by simp
    from step idle(1) have "br_propagator (b (Suc i)) = Popped p"
      by (cases rule: propagator_step.cases) (simp_all add: propagate_pop_simps q)
    from popped_is_published [OF assms(1,2) this] obtain l now where
      l: "b (Suc l) = propagate_publish now p (b l)" by blast
    let ?p = "set_sequence_number p (br_mGlobalSequenceNumber (b (Suc l)))"
    have "br_propagator (b (Suc l)) = Published now ?p" by (simp add: l propagate_publish_simps)
    from published_is_enqueued [OF assms(1,2) this] obtain j where
      j: "Suc l \<le> j" "b (Suc j) = propagate_store now ?p (b j)" by blast
    have "\<exists>ps. br_mPublishQueue (b (Suc l)) = ps @ [?p]" by (simp add: l propagate_publish_simps)
    moreover have "\<exists>qs. br_mDataPacketStoreQueue (b (Suc j)) = qs @ [(now, ?p)]"
      by (simp add: j(2) propagate_store_simps)
    ultimately show ?thesis using j(1) unfolding p by (metis le_imp_less_Suc)
  qed
qed

theorem every_packet_gets_through_witness:
  "\<exists>b0 b i ps. fair_run (RocksStore mem_rocks demo_ser) b0 demo_event b \<and>
     br_mPublishQueue (b i) = ps @ [set_sequence_number demo_valid (br_mGlobalSequenceNumber (b i))]"
proof -
  obtain b0 where b0: "Broker_construct (RocksStore mem_rocks demo_ser) demo_broker_options
      (Some demo_store) MetricsSingleton_init = Inr b0"
    "fair_run (RocksStore mem_rocks demo_ser) b0 demo_event demo_state" by (rule demo_fair_run)
  have "is_valid demo_valid" using isValid_demo_valid unfolding is_valid_def by blast
  then have arr: "arrivals demo_event (Suc 0) = [demo_valid]" by (simp add: demo_event_def)
  have "departed demo_event demo_state (Suc 0) = 0"
    by (simp add: departed_def arr del: arrivals.simps(2))
      (simp add: addPacketCallback_valid [OF isValid_demo_valid])
  then have pushed: "\<not> (\<exists>i. demo_event i \<noteq> None \<and>
      8192 < length (br_mImportQueue (demo_state i)) \<and> departed demo_event demo_state i \<le> 0 \<and>
      0 < departed demo_event demo_state (Suc i))"
    by (auto simp: demo_event_def)
  have "0 < length (arrivals demo_event (Suc 0))" by (simp only: arr list.size)
  from every_packet_gets_through [OF b0 this] pushed obtain i ps where
    "br_mPublishQueue (demo_state i) = ps @
       [set_sequence_number (arrivals demo_event (Suc 0) ! 0) (br_mGlobalSequenceNumber (demo_state i))]" by blast
  with b0(2) show ?thesis unfolding arr nth_Cons_0 by blast
qed

end
