(* ===== verification/Rocks_Race.thy ===== *)
theory Rocks_Race
  imports Rocks_Properties
begin

text \<open>
  The RocksDB packet store used by two threads at once, as \<open>rocksDatabase.hpp\<close> intends: a producer that
  writes and a monitor that truncates.  RocksDB makes each of its calls atomic, the store takes no
  lock, so an operation that reads the registry and then writes a batch is two steps, and the batch may
  be built from a registry that is out of date when it is written.
\<close>

section \<open>Operations in two steps\<close>

text \<open>\<open>truncateOldest\<close>: what it decides from the registry, if there is anything to purge, and the
  write with the compactions after it.\<close>

record truncation =
  tr_batch :: "batch_op list"
  tr_compactRanges :: "(string \<times> string) list"
  tr_purged :: u64

definition truncate_plan ::
  "'db rocks \<Rightarrow> u64 \<Rightarrow> 'db RocksDatabase \<Rightarrow> truncation option result" where
  "truncate_plan R nPackets s =
     (case ensureInitialized s of Inl e \<Rightarrow> Inl e | Inr _ \<Rightarrow>
        if nPackets = 0 then Inr None
        else
          let (entries, globalMin, globalMax) = snapshot R (database s)
          in if entries = [] \<or> globalMin > globalMax then Inr None
          else
            let cutoff = truncation_cutoff globalMin globalMax nPackets;
                purged = cutoff - globalMin
            in if purged = 0 then Inr None
            else
              let (batch, compactRanges) = foldl (truncate_entry cutoff) ([], []) entries
              in Inr (Some \<lparr>tr_batch = batch, tr_compactRanges = compactRanges, tr_purged = purged\<rparr>))"

definition truncate_commit ::
  "'db rocks \<Rightarrow> truncation \<Rightarrow> 'db RocksDatabase \<Rightarrow> u64 \<times> 'db RocksDatabase" where
  "truncate_commit R t s =
     (let (ok, d) = rdb_Write R (database s) (rd_mDisableWriteAheadLog s) (tr_batch t)
      in if \<not> ok then (0, set_database d s)
      else
        let d = foldl (\<lambda>d r. rdb_CompactRange R d PacketsCF (Some r)) d (tr_compactRanges t);
            d = rdb_CompactRange R d StreamsCF None
        in (tr_purged t, set_database d s))"

text \<open>\<open>write\<close>: the batch it builds is \<open>write_batch\<close>; this is the rest.\<close>

definition write_commit ::
  "'db rocks \<Rightarrow> (i64 \<times> Packet) list \<Rightarrow> Packet list \<times> batch_op list \<Rightarrow> 'db RocksDatabase
   \<Rightarrow> Packet list \<times> 'db RocksDatabase" where
  "write_commit R receiptTimeAndData = (\<lambda>(notWritten, batch) s.
     let (ok, d) = rdb_Write R (database s) (rd_mDisableWriteAheadLog s) batch
     in (if ok then notWritten else map snd receiptTimeAndData, set_database d s))"

text \<open>The operations are their two steps with nothing between them.\<close>

lemma truncateOldest_steps:
  "truncateOldest R n s =
     (case truncate_plan R n s of
        Inl e \<Rightarrow> (Inl e, s)
      | Inr None \<Rightarrow> (Inr 0, s)
      | Inr (Some t) \<Rightarrow> map_prod Inr id (truncate_commit R t s))"
  by (auto simp: truncateOldest_def truncate_plan_def truncate_commit_def Let_def
      split: sum.split prod.split)

lemma write_packets_steps:
  assumes "rd_mInitialized s" "xs \<noteq> []"
  shows "write_packets R ser xs s = map_prod Inr id (write_commit R xs (write_batch R ser (database s) xs) s)"
  using assms by (auto simp: write_packets_def write_commit_def Let_def split: prod.split)

section \<open>A truncation that was overtaken\<close>

text \<open>Any number of writes.\<close>

abbreviation write_all ::
  "'db rocks \<Rightarrow> (Packet \<Rightarrow> string) \<Rightarrow> (i64 \<times> Packet) list list \<Rightarrow> 'db RocksDatabase \<Rightarrow> 'db RocksDatabase" where
  "write_all R ser xss s \<equiv> foldl (\<lambda>s xs. snd (write_packets R ser xs s)) s xss"

text \<open>The effect of the batch on any contents: the streams that had something old in the registry the
  plan was made from lose their packets below the cutoff, and their registry entry becomes what the
  plan made of the old one.\<close>

definition planned :: "view \<Rightarrow> u64 \<Rightarrow> string \<Rightarrow> string option" where
  "planned w cutoff k = (case w StreamsCF k of
     Some v \<Rightarrow> if reg_min v < cutoff then Some v else None | None \<Rightarrow> None)"

context rocks_api
begin

lemma truncate_plan_batch:
  assumes wf: "store_wf (contents (database s))" and r: "registry_range (contents (database s)) lo hi"
    and p: "truncate_plan R n s = Inr (Some t)"
  shows "tr_batch t = registry_ops (truncation_cutoff lo hi n) (database s)"
    "tr_purged t = truncation_cutoff lo hi n - lo" "tr_purged t \<noteq> 0"
proof -
  let ?c = "truncation_cutoff lo hi n" and ?es = "map entry_of (rdb_Scan R (database s) StreamsCF)"
  obtain b rs where fold: "foldl (truncate_entry ?c) ([], []) ?es = (b, rs)" by force
  with truncate_loop [of ?c "[]" "[]" ?es] have "b = registry_ops ?c (database s)" by simp
  with p show "tr_batch t = registry_ops ?c (database s)" "tr_purged t = ?c - lo" "tr_purged t \<noteq> 0"
    by (auto simp: truncate_plan_def snapshot_eq [OF wf r] fold ensureInitialized_def Let_def split: if_splits)
qed

lemma fst_truncate_loop:
  "fst (foldl (truncate_entry c) ([], []) (map entry_of (rdb_Scan R d StreamsCF))) = registry_ops c d"
  using truncate_loop [of c "[]" "[]" "map entry_of (rdb_Scan R d StreamsCF)"] by auto

lemma truncate_plan_exists:
  assumes wf: "store_wf (contents (database s))" and r: "registry_range (contents (database s)) lo hi"
    and s: "rd_mInitialized s" "n \<noteq> 0" "truncation_cutoff lo hi n \<noteq> lo"
  obtains t where "truncate_plan R n s = Inr (Some t)"
proof -
  have "rdb_Scan R (database s) StreamsCF \<noteq> []"
    using r Scan_set [of "database s" StreamsCF] by (auto simp: registry_range_def)
  moreover have "\<not> lo > hi" using registry_range_le [OF wf r] by simp
  ultimately show thesis
    using that s by (cases "foldl (truncate_entry (truncation_cutoff lo hi n)) ([], [])
        (map entry_of (rdb_Scan R (database s) StreamsCF))")
      (simp add: truncate_plan_def snapshot_eq [OF wf r] Let_def)
qed

lemma overtaken_packets:
  assumes wf: "store_wf (contents d)" and k: "length k = 40"
  shows "apply_batch (registry_ops c d) w PacketsCF k =
    (if planned (contents d) c (take 32 k) \<noteq> None \<and> seq_of k < c then None else w PacketsCF k)"
proof -
  have keys: "length sk = 32" if "(sk, u) \<in> set (rdb_Scan R d StreamsCF)" for sk u
    using that registry_wfD(2) [OF wf] by (auto simp: Scan_set)
  show ?thesis
    by (subst apply_ops_packets [OF k keys]) (auto simp: planned_def Scan_set split: option.splits)
qed

lemma overtaken_streams:
  "apply_batch (registry_ops c d) w StreamsCF k =
    (case planned (contents d) c k of None \<Rightarrow> w StreamsCF k | Some v \<Rightarrow> truncated_entry c v)"
proof (cases "contents d StreamsCF k")
  case None
  then show ?thesis unfolding apply_ops_streams [OF key_sorted_distinct [OF Scan_sorted]]
    by (auto simp: planned_def Scan_set)
next
  case (Some v)
  then have "k \<in> fst ` set (rdb_Scan R d StreamsCF)" by (force simp: Scan_set)
  with Some show ?thesis unfolding apply_ops_streams [OF key_sorted_distinct [OF Scan_sorted]]
    by (auto simp: planned_def map_of_scan entry_ops_def truncated_entry_def)
qed

lemma truncate_commit_contents:
  assumes "truncate_commit R t s = (p, s')" "p \<noteq> 0"
  shows "contents (database s') = apply_batch (tr_batch t) (contents (database s))"
proof -
  obtain ok d where w: "rdb_Write R (database s) (rd_mDisableWriteAheadLog s) (tr_batch t) = (ok, d)" by force
  with assms have ok by (auto simp: truncate_commit_def split: if_splits)
  with w have "contents d = apply_batch (tr_batch t) (contents (database s))" by (simp add: Write_ok)
  with assms w \<open>ok\<close> show ?thesis
    by (auto simp: truncate_commit_def Let_def CompactRange CompactRange_fold)
qed

lemma truncate_commit_accepted:
  assumes "fst (rdb_Write R (database s) (rd_mDisableWriteAheadLog s) (tr_batch t))"
  obtains s' where "truncate_commit R t s = (tr_purged t, s')"
  using assms that
  by (cases "rdb_Write R (database s) (rd_mDisableWriteAheadLog s) (tr_batch t)")
    (simp add: truncate_commit_def Let_def)

text \<open>Packets written meanwhile with higher numbers do not get in the way of the plan.\<close>

lemma writes_keep_stored:
  assumes "\<And>xs x. xs \<in> set xss \<Longrightarrow> x \<in> set xs \<Longrightarrow> sequence_number (snd x) \<noteq> q" "keyable i"
  shows "stored (contents (database (write_all R ser xss s))) i q =
    stored (contents (database s)) i q"
  using assms(1)
proof (induction xss arbitrary: s)
  case (Cons xs xss)
  have one: "stored (contents (database (snd (write_packets R ser xs s)))) i q = stored (contents (database s)) i q"
  proof (cases "rd_mInitialized s \<and> xs \<noteq> []")
    case True
    show ?thesis
    proof (cases "write_status R ser xs s")
      case ok: True
      from True write_packets_ok [OF _ _ ok] obtain n b d' where
        w: "write_packets R ser xs s = (Inr n, set_database d' s)"
        "write_batch R ser (database s) xs = (n, b)"
        "contents d' = apply_batch b (contents (database s))" by blast
      have "latest xs i q = None" using Cons.prems [of xs] by (fastforce simp: latest_def find_None_iff)
      with w(1,3) stored_write_batch [OF w(2) assms(2)] show ?thesis by simp
    next
      case False
      from True write_packets_failed [OF _ _ False] obtain d' where
        "write_packets R ser xs s = (Inr (map snd xs), set_database d' s)"
        "contents d' = contents (database s)" by blast
      then show ?thesis by simp
    qed
  next
    case False
    then show ?thesis by (cases "rd_mInitialized s") (auto simp: write_packets_def)
  qed
  have "stored (contents (database (write_all R ser xss (snd (write_packets R ser xs s))))) i q =
    stored (contents (database (snd (write_packets R ser xs s)))) i q"
    by (rule Cons.IH) (use Cons.prems in auto)
  with one show ?case by simp
qed simp

lemma planned_stored:
  assumes wf: "store_wf (contents d)" and i: "keyable i" and q: "q < c"
    and st: "stored (contents d) i q \<noteq> None"
  shows "planned (contents d) c (stream_key i) \<noteq> None"
proof -
  obtain v where v: "contents d PacketsCF (stream_key i @ be64 q) = Some v"
    using st by (auto simp: stored_def)
  with packets_wfD(3) [OF wf v] i obtain r where
    "contents d StreamsCF (stream_key i) = Some r" "reg_min r \<le> q" by auto
  with q show ?thesis by (auto simp: planned_def)
qed

lemma overtaken_truncation:
  assumes wf: "store_wf (contents (database s))" and r: "registry_range (contents (database s)) lo hi"
    and nowrap: "unat lo + unat n < 2 ^ 64" "unat hi + 1 < 2 ^ 64"
    and plan: "truncate_plan R n s = Inr (Some t)"
    and fresh: "\<And>x. x \<in> set (concat xss) \<Longrightarrow> hi < sequence_number (snd x)"
    and commit: "truncate_commit R t (write_all R ser xss s) = (p, s')" "p \<noteq> 0"
  shows "unat p = min (unat n) (unat hi + 1 - unat lo) \<and>
    (\<forall>i q. keyable i \<longrightarrow> stored (contents (database s')) i q =
       (if q < lo + p then None else stored (contents (database (write_all R ser xss s))) i q))"
proof (intro conjI allI impI)
  let ?c = "truncation_cutoff lo hi n" and ?w = "contents (database s)"
    and ?w' = "contents (database (write_all R ser xss s))"
  note b = truncate_plan_batch [OF wf r plan]
  have p: "p = ?c - lo" using commit b(2) by (auto simp: truncate_commit_def Let_def split: prod.splits if_splits)
  have c: "unat ?c = min (unat lo + unat n) (unat hi + 1)" by (rule truncation_cutoff_unat [OF nowrap])
  have le: "unat lo \<le> unat hi" using registry_range_le [OF wf r] by (simp add: word_le_nat_alt)
  then have "lo \<le> ?c" using c by (simp add: word_le_nat_alt)
  then show "unat p = min (unat n) (unat hi + 1 - unat lo)"
    using c le by (simp add: p unat_sub_if')
  fix i q assume i: "keyable i"
  have len: "length (stream_key i @ be64 q) = 40" using i by simp
  have eq: "stored (contents (database s')) i q =
      (if planned ?w ?c (stream_key i) \<noteq> None \<and> q < ?c then None else stored ?w' i q)"
    using overtaken_packets [OF wf len, of ?c ?w'] i
    by (simp add: stored_def truncate_commit_contents [OF commit] b(1) del: map_map)
  show "stored (contents (database s')) i q = (if q < lo + p then None else stored ?w' i q)"
  proof (cases "q < ?c")
    case True
    have "q \<le> hi" using True c by (simp add: word_less_nat_alt word_le_nat_alt)
    then have "stored ?w' i q = stored ?w i q"
      using fresh by (intro writes_keep_stored i) fastforce
    moreover have "stored ?w i q = None" if "planned ?w ?c (stream_key i) = None"
      using planned_stored [OF wf i True] that by blast
    ultimately show ?thesis using True by (simp add: eq p)
  qed (simp add: eq p)
qed

end

section \<open>A write that was overtaken\<close>

text \<open>The other order is harmless: a batch built before a truncation and written after it leaves a
  consistent store, because the registry entries in it only cover more than they need.\<close>

lemma truncated_keeps_range:
  "truncate_view c w StreamsCF k = Some r' \<Longrightarrow>
   \<exists>r. w StreamsCF k = Some r \<and> reg_min r \<le> reg_min r' \<and> reg_max r' = reg_max r"
  by (auto simp: truncate_view_def truncated_entry_def not_le less_imp_le split: option.splits if_splits)

context rocks_api
begin

lemma overtaken_write:
  assumes wf: "store_wf (contents d)" and b: "write_batch R ser d xs = (n, b)"
  shows "store_wf (apply_batch b (truncate_view c (contents d)))"
proof (rule store_wfI)
  let ?w = "truncate_view c (contents d)" and ?w1 = "apply_batch b (contents d)"
  let ?w2 = "apply_batch b ?w" and ?ys = "\<lambda>k. filter (\<lambda>x. data_keyable x \<and> data_stream x = k) xs"
  note wft = store_wf_truncate_view [OF wf, of c]
  note wf1 = store_wf_write_batch [OF wf b]
  have streams: "?w2 StreamsCF k = (if ?ys k = [] then ?w StreamsCF k else ?w1 StreamsCF k)" for k
    using write_contents_on(2) [OF b] by (auto split: option.split dest: aggregate_of_SomeD(1))
  show "registry_wf ?w2"
    unfolding registry_wf_def
  proof (intro allI impI)
    fix k v assume "?w2 StreamsCF k = Some v"
    then have "?w StreamsCF k = Some v \<or> ?w1 StreamsCF k = Some v" by (simp add: streams split: if_splits)
    then show "(\<exists>i. keyable i \<and> k = stream_key i) \<and> length v = 24 \<and> reg_min v \<le> reg_max v"
      using registry_wfD [OF wft, of k v] registry_wfD [OF wf1, of k v] by blast
  qed
  show "packets_wf ?w2"
    unfolding packets_wf_def
  proof (intro allI impI)
    fix k v assume "?w2 PacketsCF k = Some v"
    then consider (put) x where "x \<in> set xs" "data_keyable x" "k = data_key x" "v = packet_value ser (fst x) (snd x)"
      | (kept) "?w PacketsCF k = Some v"
      by (fastforce simp: write_contents_on(1) [OF b] map_add_def split: option.splits dest: map_of_SomeD)
    then show "length k = 40 \<and> 9 \<le> length v \<and> (\<exists>r. ?w2 StreamsCF (take 32 k) = Some r \<and>
        reg_min r \<le> seq_of k \<and> seq_of k \<le> reg_max r)"
    proof cases
      case put
      then have "?ys (data_stream x) \<noteq> []" by (auto simp: filter_empty_conv)
      with put write_batch_covers [OF b put(1,2)] show ?thesis by (auto simp: streams)
    next
      case kept
      note p = packets_wfD [OF wft kept]
      from p(3) obtain r where r: "?w StreamsCF (take 32 k) = Some r" "reg_min r \<le> seq_of k" "seq_of k \<le> reg_max r"
        by blast
      from truncated_keeps_range [OF r(1)] obtain r0 where
        r0: "contents d StreamsCF (take 32 k) = Some r0" "reg_min r0 \<le> reg_min r" "reg_max r = reg_max r0" by blast
      from write_batch_keeps_entry [OF wf b r0(1)] obtain r1 where
        "?w1 StreamsCF (take 32 k) = Some r1" "reg_min r1 \<le> reg_min r0" "reg_max r0 \<le> reg_max r1" by blast
      with p(1,2) r r0 show ?thesis by (auto simp: streams intro: order_trans)
    qed
  qed
qed

lemma truncateOldest_view:
  assumes wf: "store_wf (contents (database s))"
  shows "\<exists>c. contents (database (snd (truncateOldest R n s))) = truncate_view c (contents (database s))"
proof -
  have id: "contents (database s) = truncate_view 0 (contents (database s))"
    by (auto simp: fun_eq_iff truncate_view_def truncated_entry_def split: option.split column_family.split)
  show ?thesis
  proof (cases "rd_mInitialized s \<and> n \<noteq> 0 \<and> contents (database s) StreamsCF \<noteq> Map.empty")
    case True
    then obtain lo hi where r: "registry_range (contents (database s)) lo hi"
      using registry_range_exists [OF wf] by blast
    from True id show ?thesis by (cases rule: truncateOldest_range [OF wf _ _ r, of n]) auto
  next
    case False
    then have "snd (truncateOldest R n s) = s"
      using truncateOldest_none [of s n] by (cases "rd_mInitialized s") (auto simp: truncateOldest_def)
    with id show ?thesis by metis
  qed
qed

lemma overtaken_write_effect:
  assumes wf: "store_wf (contents (database s))"
    and t: "contents (database s') = contents (database (snd (truncateOldest R n s)))"
    and c: "write_commit R xs (write_batch R ser (database s) xs) s' = (ps, s'')"
  shows "store_wf (contents (database s'')) \<and>
    (fst (rdb_Write R (database s') (rd_mDisableWriteAheadLog s') (snd (write_batch R ser (database s) xs))) \<longrightarrow>
      ps = map snd (filter (\<lambda>x. \<not> keyable (stream_identifier (snd x))) xs) \<and>
      (\<forall>i q. keyable i \<longrightarrow> stored (contents (database s'')) i q =
         (case latest xs i q of None \<Rightarrow> stored (contents (database s')) i q
          | Some x \<Rightarrow> Some (fst x, ser (snd x)))))"
proof -
  obtain m b where b: "write_batch R ser (database s) xs = (m, b)" by force
  obtain ok d where w: "rdb_Write R (database s') (rd_mDisableWriteAheadLog s') b = (ok, d)" by force
  obtain k where k: "contents (database s') = truncate_view k (contents (database s))"
    using t truncateOldest_view [OF wf] by metis
  have s'': "s'' = set_database d s'" "ok \<Longrightarrow> ps = m" using c by (auto simp: write_commit_def b w)
  show ?thesis
  proof (cases ok)
    case True
    with w have d: "contents d = apply_batch b (contents (database s'))" by (simp add: Write_ok)
    with overtaken_write [OF wf b, of k] have "store_wf (contents d)" by (simp add: k)
    with d s'' True show ?thesis
      using stored_write_batch_on [OF b] write_contents(1) [OF b] by (auto simp: data_keyable_def)
  next
    case False
    with w have "contents d = contents (database s')" by (simp add: Write_failed)
    with False s'' w b show ?thesis using store_wf_truncate_view [OF wf] by (simp add: k)
  qed
qed

end

section \<open>A concrete race\<close>

lemma demo_plan:
  obtains t where "truncate_plan mem_rocks 10 demo_store = Inr (Some t)"
    "tr_batch t = mem.registry_ops 6 (database demo_store)" "tr_purged t = 3"
proof -
  have c: "truncation_cutoff 3 5 10 = 6" by (simp add: truncation_cutoff_def)
  obtain t where t: "truncate_plan mem_rocks 10 demo_store = Inr (Some t)"
    by (rule mem.truncate_plan_exists [OF demo_wf demo_range demo_initialized, of 10]) (simp_all add: c)
  with mem.truncate_plan_batch [OF demo_wf demo_range t] that show thesis by (simp add: c)
qed

lemma mem_accepts: "fst (rdb_Write mem_rocks d w b) = (\<not> mem_fails d)"
  by (simp add: mem_rocks_def)

lemma mem_write_fails: "rdb_Write mem_rocks d w b = (ok, d') \<Longrightarrow> mem_fails d' = mem_fails d"
  by (auto simp: mem_rocks_def mem_fails_fold split: if_splits)

lemma write_packets_mem_fails:
  "mem_fails (database (snd (write_packets mem_rocks ser xs s))) = mem_fails (database s)"
  by (auto simp: write_packets_def Let_def dest: mem_write_fails split: sum.split prod.split)

lemma mem_compactions: "rdb_CompactRange mem_rocks d c r = d" "foldl (\<lambda>d r. d) d rs = d"
  by (simp add: mem_rocks_def) (induction rs; simp)

lemma truncateOldest_mem_fails:
  "mem_fails (database (snd (truncateOldest mem_rocks n s))) = mem_fails (database s)"
  by (auto simp: truncateOldest_def Let_def mem_compactions dest: mem_write_fails split: sum.split prod.split)

lemma demo_next_write:
  obtains s where "write_packets mem_rocks demo_ser [(300, demo_packet 6)] demo_store = (Inr [], s)"
    "\<not> mem_fails (database s)" "rd_mInitialized s"
    "\<And>k. k \<noteq> stream_key demo_id \<Longrightarrow> mem_contents (database s) StreamsCF k = None"
    "stored (mem_contents (database s)) demo_id 6 = Some (300, demo_ser (demo_packet 6))"
proof -
  let ?xs = "[(300, demo_packet 6)]"
  have ok: "write_status mem_rocks demo_ser ?xs demo_store" unfolding write_status_def by (rule demo_accepts)
  from mem.write_packets_ok [OF demo_initialized _ ok] obtain n b d where
    w: "write_packets mem_rocks demo_ser ?xs demo_store = (Inr n, set_database d demo_store)"
      "write_batch mem_rocks demo_ser (database demo_store) ?xs = (n, b)"
      "mem_contents d = apply_batch b (mem_contents (database demo_store))" by blast
  have "n = []" using mem.write_contents(1) [OF w(2)] by (simp add: data_keyable_def)
  moreover have "\<not> mem_fails d"
    using write_packets_mem_fails [of demo_ser ?xs demo_store] w(1) demo_accepts by (simp add: mem_accepts)
  moreover have "k \<noteq> stream_key demo_id \<Longrightarrow> mem_contents d StreamsCF k = None" for k
    unfolding w(3) mem.write_contents(3) [OF w(2)]
    by (auto simp: demo_registry data_stream_def split: option.splits if_splits)
  moreover have "stored (mem_contents d) demo_id 6 = Some (300, demo_ser (demo_packet 6))"
    unfolding w(3) mem.stored_write_batch [OF w(2) keyable_demo_id] by (simp add: latest_def)
  ultimately show thesis using w(1) demo_initialized by (intro that [of "set_database d demo_store"]) simp_all
qed

section \<open>Properties\<close>

text \<open>C21.  A truncation overtaken by writes still purges exactly.  The plan is made, then any number of batches
  with higher numbers are written, then the plan is carried out: it removes exactly the packets below the
  cutoff that were there when it was made, reports their number, and loses none of the packets
  written meanwhile.\<close>

theorem overtaken_truncation_purges_exactly:
  assumes "rocks_api R contents" "store_wf (contents (database s))"
    and "registry_range (contents (database s)) lo hi"
    and "unat lo + unat n < 2 ^ 64" "unat hi + 1 < 2 ^ 64"
    and "truncate_plan R n s = Inr (Some t)"
    and "\<And>x. x \<in> set (concat xss) \<Longrightarrow> hi < sequence_number (snd x)"
    and "truncate_commit R t (write_all R ser xss s) = (p, s')" "p \<noteq> 0"
  shows "unat p = min (unat n) (unat hi + 1 - unat lo) \<and>
    (\<forall>i q. keyable i \<longrightarrow> stored (contents (database s')) i q =
       (if q < lo + p then None else stored (contents (database (write_all R ser xss s))) i q))"
  by (rule rocks_api.overtaken_truncation [OF assms])

theorem overtaken_truncation_purges_exactly_witness:
  "\<exists>t s p s'. truncate_plan mem_rocks 10 demo_store = Inr (Some t) \<and>
     write_packets mem_rocks demo_ser [(300, demo_packet 6)] demo_store = (Inr [], s) \<and>
     truncate_commit mem_rocks t s = (p, s') \<and> unat p = 3 \<and>
     stored (mem_contents (database s')) demo_id 5 = None \<and>
     stored (mem_contents (database s')) demo_id 6 = Some (300, demo_ser (demo_packet 6))"
proof -
  let ?xss = "[[(300, demo_packet 6)]]"
  obtain t where t: "truncate_plan mem_rocks 10 demo_store = Inr (Some t)" "tr_purged t = 3" by (rule demo_plan)
  obtain s where s: "write_packets mem_rocks demo_ser [(300, demo_packet 6)] demo_store = (Inr [], s)"
    "\<not> mem_fails (database s)" "stored (mem_contents (database s)) demo_id 6 = Some (300, demo_ser (demo_packet 6))"
    using demo_next_write by blast
  obtain s' where c: "truncate_commit mem_rocks t s = (3, s')"
    using mem.truncate_commit_accepted [of s t] s(2) t(2) by (auto simp: mem_accepts)
  have "truncate_commit mem_rocks t (write_all mem_rocks demo_ser ?xss demo_store) = (3, s')"
    using c by (simp add: s(1))
  from overtaken_truncation_purges_exactly [OF mem.rocks_api_axioms demo_wf demo_range _ _ t(1) _ this]
  have "unat (3 :: u64) = 3 \<and> (\<forall>i q. keyable i \<longrightarrow> stored (mem_contents (database s')) i q =
      (if q < 3 + 3 then None else stored (mem_contents (database s)) i q))" by (simp add: s(1))
  then have "stored (mem_contents (database s')) demo_id 5 = None"
    "stored (mem_contents (database s')) demo_id 6 = Some (300, demo_ser (demo_packet 6))"
    using s(3) by simp_all
  with t(1) s(1) c show ?thesis by fastforce
qed

text \<open>C22.  A write overtaken by a truncation stays consistent.  Whatever the database answers, a batch that was
  built before a truncation and is written after it leaves the registry and the packets consistent; when
  it is accepted, exactly its packets are added to what the truncation left.\<close>

theorem overtaken_write_consistent:
  assumes "rocks_api R contents" "store_reachable R ser contents s"
    and "contents (database s') = contents (database (snd (truncateOldest R n s)))"
    and "write_commit R xs (write_batch R ser (database s) xs) s' = (ps, s'')"
  shows "store_wf (contents (database s'')) \<and>
    (fst (rdb_Write R (database s') (rd_mDisableWriteAheadLog s') (snd (write_batch R ser (database s) xs))) \<longrightarrow>
      ps = map snd (filter (\<lambda>x. \<not> keyable (stream_identifier (snd x))) xs) \<and>
      (\<forall>i q. keyable i \<longrightarrow> stored (contents (database s'')) i q =
         (case latest xs i q of None \<Rightarrow> stored (contents (database s')) i q
          | Some x \<Rightarrow> Some (fst x, ser (snd x)))))"
  using rocks_api.overtaken_write_effect [OF assms(1) _ assms(3,4)]
    rocks_api.store_reachable_wf [OF assms(1,2)] by blast

theorem overtaken_write_consistent_witness:
  "\<exists>s. write_commit mem_rocks [(300, demo_packet 6)] (write_batch mem_rocks demo_ser
       (database demo_store) [(300, demo_packet 6)]) (snd (truncateOldest mem_rocks 10 demo_store)) = ([], s) \<and>
     store_wf (mem_contents (database s)) \<and>
     stored (mem_contents (database s)) demo_id 6 = Some (300, demo_ser (demo_packet 6))"
proof -
  let ?xs = "[(300, demo_packet 6)]" and ?s' = "snd (truncateOldest mem_rocks 10 demo_store)"
  obtain m b where b: "write_batch mem_rocks demo_ser (database demo_store) ?xs = (m, b)" by force
  obtain ps s where c: "write_commit mem_rocks ?xs (m, b) ?s' = (ps, s)" by force
  have "fst (rdb_Write mem_rocks (database ?s') (rd_mDisableWriteAheadLog ?s') b)"
    using demo_accepts by (simp add: mem_accepts truncateOldest_mem_fails)
  with overtaken_write_consistent [OF mem.rocks_api_axioms demo_reachable refl c [folded b]]
  have "store_wf (mem_contents (database s)) \<and> ps = [] \<and>
     stored (mem_contents (database s)) demo_id 6 = Some (300, demo_ser (demo_packet 6))"
    by (simp add: b latest_def)
  with c b show ?thesis by auto
qed



end
