(* ===== verification/Rocks_Refinement.thy ===== *)
theory Rocks_Refinement
  imports Rocks_Race
begin

text \<open>
  What the RocksDB packet store promises, without keys, byte strings, column families and batches: a
  table of packets by stream and sequence number, and the range of numbers of each stream.  The
  operations of \<open>RocksDatabase\<close> are commands; \<open>spec_step\<close> says which answer and which table a
  command may give.  The abstraction function reads the table out of the contents of the database,
  and every run of the code is a run of the specification.
\<close>

section \<open>The abstract store\<close>

text \<open>Streams are named by canonical identifiers with a key.  The range of a stream is an
  \<open>Aggregate\<close>: its smallest and largest sequence number and its last receipt time.\<close>

definition is_stream :: "StreamIdentifier \<Rightarrow> bool" where
  "is_stream i \<longleftrightarrow> keyable i \<and> canonical i = i"

record packet_table =
  tb_packets :: "StreamIdentifier \<Rightarrow> u64 \<Rightarrow> (i64 \<times> string) option"
  tb_ranges :: "StreamIdentifier \<Rightarrow> Aggregate option"

definition put_one :: "(Packet \<Rightarrow> string) \<Rightarrow> i64 \<times> Packet \<Rightarrow> packet_table \<Rightarrow> packet_table" where
  "put_one ser x a =
     (if keyable (stream_identifier (snd x)) then
        let i = canonical (stream_identifier (snd x))
        in a\<lparr>tb_packets := (tb_packets a)(i := (tb_packets a i)
                (sequence_number (snd x) \<mapsto> (fst x, ser (snd x)))),
             tb_ranges := (tb_ranges a)(i := merge_data (tb_ranges a i) x)\<rparr>
      else a)"

definition cut_range :: "u64 \<Rightarrow> Aggregate \<Rightarrow> Aggregate option" where
  "cut_range c g = (if c \<le> ag_minSequenceNumber g then Some g
                    else if ag_maxSequenceNumber g < c then None
                    else Some (g\<lparr>ag_minSequenceNumber := c\<rparr>))"

definition cut :: "u64 \<Rightarrow> packet_table \<Rightarrow> packet_table" where
  "cut c a = a\<lparr>tb_packets := (\<lambda>i q. if q < c then None else tb_packets a i q),
               tb_ranges := (\<lambda>i. Option.bind (tb_ranges a i) (cut_range c))\<rparr>"

text \<open>The smallest and the largest number of all streams.\<close>

definition table_range :: "packet_table \<Rightarrow> u64 \<Rightarrow> u64 \<Rightarrow> bool" where
  "table_range a lo hi \<longleftrightarrow>
     (\<forall>i g. tb_ranges a i = Some g \<longrightarrow> lo \<le> ag_minSequenceNumber g \<and> ag_maxSequenceNumber g \<le> hi) \<and>
     (\<exists>i g. tb_ranges a i = Some g \<and> ag_minSequenceNumber g = lo) \<and>
     (\<exists>i g. tb_ranges a i = Some g \<and> ag_maxSequenceNumber g = hi)"

text \<open>The packets of one stream from a number on.\<close>

definition answers_query ::
  "packet_table \<Rightarrow> StreamIdentifier \<times> u64 \<Rightarrow> QueryResponse list \<Rightarrow> bool" where
  "answers_query a = (\<lambda>(i, q) rs.
     if keyable i then
       sorted_wrt (\<lambda>x y. qr_sequenceNumber x < qr_sequenceNumber y) rs \<and>
       set rs = {\<lparr>qr_packet = p, qr_receivedAt = t, qr_sequenceNumber = n\<rparr> | n t p.
                   q \<le> n \<and> tb_packets a (canonical i) n = Some (t, p)}
     else rs = [])"

section \<open>Commands and their specification\<close>

datatype command =
    Write "(i64 \<times> Packet) list"
  | Truncate u64
  | Compact i64
  | Flush
  | Query "(StreamIdentifier \<times> u64) list"
  | AvailableStreams
  | GlobalSequenceNumber

datatype answer =
    NotWritten "Packet list"
  | Purged u64
  | Finished
  | Responses "QueryResponse list"
  | Streams "(i64 \<times> StreamIdentifier) list"
  | Number u64

text \<open>The flag says whether the database accepts the write that the command makes: only when it does not
  may a command be refused.\<close>

inductive spec_step ::
  "(Packet \<Rightarrow> string) \<Rightarrow> bool \<Rightarrow> packet_table \<Rightarrow> command \<Rightarrow> answer \<Rightarrow> packet_table \<Rightarrow> bool" for ser where
  written: "spec_step ser True a (Write xs)
     (NotWritten (filter (\<lambda>p. \<not> keyable (stream_identifier p)) (map snd xs))) (fold (put_one ser) xs a)"
| write_refused: "spec_step ser False a (Write xs) (NotWritten (map snd xs)) a"
| nothing_to_truncate: "n = 0 \<or> tb_ranges a = Map.empty \<Longrightarrow> spec_step ser ok a (Truncate n) (Purged 0) a"
| truncate_refused: "spec_step ser False a (Truncate n) (Purged 0) a"
| truncated: "n \<noteq> 0 \<Longrightarrow> table_range a lo hi \<Longrightarrow> unat lo + unat n < 2 ^ 64 \<Longrightarrow> hi \<noteq> - 1 \<Longrightarrow>
     unat p = min (unat n) (unat hi + 1 - unat lo) \<Longrightarrow>
     spec_step ser True a (Truncate n) (Purged p) (cut (lo + p) a)"
| truncate_wrapped: "n \<noteq> 0 \<Longrightarrow> table_range a lo hi \<Longrightarrow> 2 ^ 64 \<le> unat lo + unat n \<or> hi = - 1 \<Longrightarrow>
     spec_step ser True a (Truncate n) (Purged (if hi = - 1 then - lo else n)) a"
| compacted: "spec_step ser ok a (Compact t) Finished a"
| flushed: "spec_step ser ok a Flush Finished a"
| queried: "list_all2 (answers_query a) qs rss \<Longrightarrow>
     spec_step ser ok a (Query qs) (Responses (concat rss)) a"
| listed: "distinct (map snd ts) \<Longrightarrow>
     set ts = {(ag_lastReceivedNanoSeconds g, i) | i g. tb_ranges a i = Some g} \<Longrightarrow>
     spec_step ser ok a AvailableStreams (Streams ts) a"
| numbered: "(\<forall>i r. tb_ranges a i = Some r \<longrightarrow> ag_maxSequenceNumber r \<le> g) \<Longrightarrow>
     g = 0 \<or> (\<exists>i r. tb_ranges a i = Some r \<and> ag_maxSequenceNumber r = g) \<Longrightarrow>
     spec_step ser ok a GlobalSequenceNumber (Number g) a"

inductive spec_run ::
  "(Packet \<Rightarrow> string) \<Rightarrow> bool list \<Rightarrow> packet_table \<Rightarrow> command list \<Rightarrow> answer list \<Rightarrow> packet_table \<Rightarrow> bool"
  for ser where
  stop: "spec_run ser [] a [] [] a"
| step: "spec_step ser ok a c x a' \<Longrightarrow> spec_run ser oks a' cs xs a'' \<Longrightarrow>
     spec_run ser (ok # oks) a (c # cs) (x # xs) a''"

inductive_simps spec_step_simps:
  "spec_step ser ok a (Write xs) x a'" "spec_step ser ok a (Truncate n) x a'"
  "spec_step ser ok a (Compact t) x a'" "spec_step ser ok a Flush x a'"
  "spec_step ser ok a (Query qs) x a'" "spec_step ser ok a AvailableStreams x a'"
  "spec_step ser ok a GlobalSequenceNumber x a'"

inductive_simps spec_run_simps: "spec_run ser oks a [] xs a'" "spec_run ser oks a (c # cs) xs a'"

text \<open>The code's side: the same commands, run on the handle.\<close>

fun run_command ::
  "'db rocks \<Rightarrow> (Packet \<Rightarrow> string) \<Rightarrow> command \<Rightarrow> 'db RocksDatabase \<Rightarrow> answer result \<times> 'db RocksDatabase" where
  "run_command R ser (Write xs) s = apfst (map_sum id NotWritten) (write_packets R ser xs s)"
| "run_command R ser (Truncate n) s = apfst (map_sum id Purged) (truncateOldest R n s)"
| "run_command R ser (Compact t) s = apfst (map_sum id (\<lambda>_. Finished)) (compact R t s)"
| "run_command R ser Flush s = (Inr Finished, flush R s)"
| "run_command R ser (Query qs) s = (map_sum id Responses (query R qs s), s)"
| "run_command R ser AvailableStreams s = (map_sum id Streams (queryAvailableStreams R s), s)"
| "run_command R ser GlobalSequenceNumber s = (map_sum id Number (getGlobalSequenceNumber R s), s)"

fun run_commands ::
  "'db rocks \<Rightarrow> (Packet \<Rightarrow> string) \<Rightarrow> command list \<Rightarrow> 'db RocksDatabase
   \<Rightarrow> answer result list \<times> 'db RocksDatabase" where
  "run_commands R ser [] s = ([], s)"
| "run_commands R ser (c # cs) s =
     (case run_command R ser c s of (x, s) \<Rightarrow> apfst ((#) x) (run_commands R ser cs s))"

text \<open>Which of the writes of a run the database accepts: the status it gives in the state before the
  command for the batch of the command.\<close>

definition truncate_status :: "'db rocks \<Rightarrow> u64 \<Rightarrow> 'db RocksDatabase \<Rightarrow> bool" where
  "truncate_status R n s = (case truncate_plan R n s of
     Inr (Some t) \<Rightarrow> fst (rdb_Write R (database s) (rd_mDisableWriteAheadLog s) (tr_batch t))
   | _ \<Rightarrow> True)"

fun command_status :: "'db rocks \<Rightarrow> (Packet \<Rightarrow> string) \<Rightarrow> command \<Rightarrow> 'db RocksDatabase \<Rightarrow> bool" where
  "command_status R ser (Write xs) s = (xs = [] \<or> write_status R ser xs s)"
| "command_status R ser (Truncate n) s = truncate_status R n s"
| "command_status R ser c s = True"

fun statuses :: "'db rocks \<Rightarrow> (Packet \<Rightarrow> string) \<Rightarrow> command list \<Rightarrow> 'db RocksDatabase \<Rightarrow> bool list" where
  "statuses R ser [] s = []"
| "statuses R ser (c # cs) s = command_status R ser c s # statuses R ser cs (snd (run_command R ser c s))"

section \<open>The abstraction\<close>

definition range_of :: "string \<Rightarrow> Aggregate" where
  "range_of v = \<lparr>ag_minSequenceNumber = reg_min v, ag_maxSequenceNumber = reg_max v,
                 ag_lastReceivedNanoSeconds = reg_last v\<rparr>"

definition abstract :: "view \<Rightarrow> packet_table" where
  "abstract w = \<lparr>tb_packets = (\<lambda>i q. if is_stream i then stored w i q else None),
     tb_ranges = (\<lambda>i. if is_stream i then map_option range_of (w StreamsCF (stream_key i)) else None)\<rparr>"

lemma range_of_simps [simp]:
  "ag_minSequenceNumber (range_of v) = reg_min v" "ag_maxSequenceNumber (range_of v) = reg_max v"
  "ag_lastReceivedNanoSeconds (range_of v) = reg_last v"
  by (simp_all add: range_of_def)

lemma canonical_canonical [simp]: "keyable i \<Longrightarrow> canonical (canonical i) = canonical i"
  by (metis keyable_canonical stream_key_canonical stream_key_eq_iff)

lemma is_stream_canonical [simp]: "keyable i \<Longrightarrow> is_stream (canonical i)"
  by (simp add: is_stream_def)

lemma stored_canonical [simp]: "keyable i \<Longrightarrow> stored w (canonical i) q = stored w i q"
  by (simp add: stored_def)

lemma abstract_packets:
  "keyable i \<Longrightarrow> tb_packets (abstract w) (canonical i) q = stored w i q"
  by (simp add: abstract_def)

lemma abstract_ranges:
  assumes "store_wf w"
  shows "tb_ranges (abstract w) i = Some g \<longleftrightarrow>
         (\<exists>j v. keyable j \<and> i = canonical j \<and> w StreamsCF (stream_key j) = Some v \<and> g = range_of v)"
    (is "?l \<longleftrightarrow> ?r")
proof
  assume ?l
  then show ?r by (auto simp: abstract_def is_stream_def split: if_splits intro!: exI [of _ i])
next
  assume ?r
  then show ?l by (auto simp: abstract_def)
qed

lemma abstract_range_keys:
  assumes "store_wf w"
  shows "(\<exists>i. tb_ranges (abstract w) i = Some g) \<longleftrightarrow> (\<exists>k v. w StreamsCF k = Some v \<and> g = range_of v)"
  using registry_wfD(1) [OF assms] by (auto simp: abstract_ranges [OF assms]) metis

subsection \<open>Writing\<close>

lemma put_one_packets:
  "tb_packets (fold (put_one ser) xs a) (canonical i) q =
     (case latest xs i q of None \<Rightarrow> tb_packets a (canonical i) q | Some x \<Rightarrow> Some (fst x, ser (snd x)))"
  by (induction xs rule: rev_induct) (auto simp: latest_def put_one_def Let_def)

lemma put_one_ranges:
  "tb_ranges (fold (put_one ser) xs a) i =
     foldl merge_data (tb_ranges a i)
       (filter (\<lambda>x. data_keyable x \<and> canonical (stream_identifier (snd x)) = i) xs)"
  by (induction xs rule: rev_induct) (auto simp: put_one_def Let_def data_keyable_def)

lemma put_one_other:
  "\<not> is_stream i \<Longrightarrow> tb_packets (fold (put_one ser) xs a) i = tb_packets a i"
  by (induction xs rule: rev_induct) (auto simp: put_one_def Let_def)

text \<open>Merging the aggregate of a batch with a registry entry is merging its packets one by one.\<close>

lemma merged_range:
  assumes "aggregate_of ys = Some g" "\<And>v. old = Some v \<Longrightarrow> length v = 24"
  shows "Some (range_of (merged_value old g)) = foldl merge_data (map_option range_of old) ys"
proof (cases old)
  case None
  then show ?thesis
    using assms(1) by (simp add: foldl_merge_data merged_value_def range_of_def)
next
  case (Some v)
  from assms(1) obtain y ys' where ys: "ys = y # ys'" by (cases ys) (auto simp: aggregate_of_def)
  have g: "g = \<lparr>ag_minSequenceNumber = Min (data_seq ` set ys),
      ag_maxSequenceNumber = Max (data_seq ` set ys),
      ag_lastReceivedNanoSeconds = foldl smax64 (fst (hd ys)) (map fst (tl ys))\<rparr>"
    using assms(1) by (simp add: aggregate_of_def ys)
  have "smax64 (foldl smax64 (fst y) (map fst ys')) (reg_last v) =
      foldl smax64 (smax64 (reg_last v) (fst y)) (map fst ys')"
    by (metis foldl_smax64 smax64.commute)
  then show ?thesis
    using assms(2) [OF Some]
    by (simp add: Some merge_data_Some merged_value_def range_of_def g ys merge_data_def
        min_Min_insert max_Max_insert del: Min_insert Max_insert)
qed

lemma packet_table_eqI:
  "(\<And>i q. tb_packets a i q = tb_packets (b :: packet_table) i q) \<Longrightarrow>
   (\<And>i. tb_ranges a i = tb_ranges b i) \<Longrightarrow> a = b"
  by (cases a; cases b) (auto simp: fun_eq_iff)

context rocks_api
begin

lemma abstract_write:
  assumes wf: "store_wf (contents d)" and b: "write_batch R ser d xs = (n, b)"
  shows "abstract (apply_batch b (contents d)) = fold (put_one ser) xs (abstract (contents d))"
proof (rule packet_table_eqI)
  fix i q
  show "tb_packets (abstract (apply_batch b (contents d))) i q =
      tb_packets (fold (put_one ser) xs (abstract (contents d))) i q"
  proof (cases "is_stream i")
    case True
    then have i: "keyable i" "canonical i = i" by (simp_all add: is_stream_def)
    show ?thesis
      using put_one_packets [of ser xs "abstract (contents d)" i q] True
      by (simp add: i(2) stored_write_batch [OF b i(1)] abstract_def split: option.split)
  qed (simp add: put_one_other abstract_def)
next
  fix i
  let ?f = "\<lambda>x. data_keyable x \<and> canonical (stream_identifier (snd x)) = i"
  show "tb_ranges (abstract (apply_batch b (contents d))) i =
      tb_ranges (fold (put_one ser) xs (abstract (contents d))) i"
  proof (cases "is_stream i")
    case True
    then have i: "keyable i" "canonical i = i" by (simp_all add: is_stream_def)
    have f: "filter (\<lambda>x. data_keyable x \<and> data_stream x = stream_key i) xs = filter ?f xs"
      by (rule filter_cong) (auto simp: data_keyable_def data_stream_def stream_key_eq_iff i)
    show ?thesis
      using True merged_range [of "filter ?f xs" _ "contents d StreamsCF (stream_key i)"]
        registry_wfD(3) [OF wf]
      by (auto simp: abstract_def put_one_ranges write_contents(3) [OF b] f split: option.split)
  next
    case False
    then have "filter ?f xs = []"
      by (auto simp: filter_empty_conv data_keyable_def)
    then show ?thesis using False by (simp add: put_one_ranges abstract_def)
  qed
qed

lemma refines_write:
  assumes wf: "store_wf (contents (database s))" and s: "rd_mInitialized s"
  shows "\<exists>n s'. write_packets R ser xs s = (Inr n, s') \<and>
     spec_step ser (command_status R ser (Write xs) s) (abstract (contents (database s))) (Write xs) (NotWritten n)
       (abstract (contents (database s')))"
proof (cases "xs = []")
  case True
  then show ?thesis using s written [of ser "abstract (contents (database s))" "[]"]
    by (simp add: write_packets_def)
next
  case xs: False
  show ?thesis
  proof (cases "write_status R ser xs s")
    case True
    from write_packets_ok [OF s xs True] obtain n b d' where
      w: "write_packets R ser xs s = (Inr n, set_database d' s)"
      "write_batch R ser (database s) xs = (n, b)"
      "contents d' = apply_batch b (contents (database s))" by blast
    have "n = filter (\<lambda>p. \<not> keyable (stream_identifier p)) (map snd xs)"
      using write_contents(1) [OF w(2)] by (simp add: filter_map comp_def data_keyable_def)
    with w abstract_write [OF wf w(2)] True show ?thesis by (auto intro: written)
  next
    case False
    from write_packets_failed [OF s xs False] obtain d' where
      "write_packets R ser xs s = (Inr (map snd xs), set_database d' s)"
      "contents d' = contents (database s)" by blast
    with False xs show ?thesis by (auto intro: write_refused)
  qed
qed


subsection \<open>Truncating\<close>

lemma table_range_abstract:
  assumes wf: "store_wf w"
  shows "table_range (abstract w) lo hi \<longleftrightarrow> registry_range w lo hi"
proof -
  have "(\<exists>i g. tb_ranges (abstract w) i = Some g \<and> P g) \<longleftrightarrow> (\<exists>k v. w StreamsCF k = Some v \<and> P (range_of v))"
    for P using abstract_range_keys [OF wf] by metis
  moreover have "(\<forall>i g. tb_ranges (abstract w) i = Some g \<longrightarrow> P g) \<longleftrightarrow>
      (\<forall>k v. w StreamsCF k = Some v \<longrightarrow> P (range_of v))" for P
    using abstract_range_keys [OF wf] by metis
  ultimately show ?thesis by (simp add: table_range_def registry_range_def)
qed

lemma cut_range_of:
  "Option.bind (Some (range_of v)) (cut_range c) = map_option range_of (truncated_entry c v)"
  by (auto simp: cut_range_def truncated_entry_def range_of_def)

lemma abstract_truncate: "abstract (truncate_view c w) = cut c (abstract w)"
proof (rule packet_table_eqI)
  show "tb_packets (abstract (truncate_view c w)) i q = tb_packets (cut c (abstract w)) i q" for i q
    by (simp add: abstract_def cut_def stored_truncate_view is_stream_def)
  show "tb_ranges (abstract (truncate_view c w)) i = tb_ranges (cut c (abstract w)) i" for i
    using cut_range_of [of _ c]
    by (cases "w StreamsCF (stream_key i)") (auto simp: abstract_def cut_def truncate_view_def)
qed

lemma abstract_no_streams:
  "store_wf w \<Longrightarrow> tb_ranges (abstract w) = Map.empty \<longleftrightarrow> w StreamsCF = Map.empty"
  using abstract_range_keys [of w] by (auto simp: fun_eq_iff) (metis not_None_eq)+

lemma refines_truncate:
  assumes wf: "store_wf (contents (database s))" and s: "rd_mInitialized s"
  shows "\<exists>p s'. truncateOldest R n s = (Inr p, s') \<and>
     spec_step ser (truncate_status R n s) (abstract (contents (database s))) (Truncate n) (Purged p)
       (abstract (contents (database s')))"
proof (cases "n = 0 \<or> contents (database s) StreamsCF = Map.empty")
  case True
  with truncateOldest_none [OF s True] abstract_no_streams [OF wf] show ?thesis
    by (auto intro: nothing_to_truncate)
next
  case False
  then obtain lo hi where r: "registry_range (contents (database s)) lo hi" and n: "n \<noteq> 0"
    using registry_range_exists [OF wf] by blast
  let ?c = "truncation_cutoff lo hi n" and ?w = "contents (database s)"
  note tr = r [folded table_range_abstract [OF wf]]
  consider (exact) "unat lo + unat n < 2 ^ 64" "hi \<noteq> - 1" | (wrap) "2 ^ 64 \<le> unat lo + unat n" "hi \<noteq> - 1"
    | (full) "hi = - 1" by linarith
  then have accepted: "spec_step ser True (abstract ?w) (Truncate n) (Purged (?c - lo))
      (abstract (truncate_view ?c ?w))"
  proof cases
    case exact
    have hi: "unat hi + 1 < 2 ^ 64"
      using unat_plus_one [OF exact(2)] unat_less_64 [of "hi + 1"] by simp
    have c: "unat ?c = min (unat lo + unat n) (unat hi + 1)" by (rule truncation_cutoff_unat [OF exact(1) hi])
    have le: "unat lo \<le> unat hi" using registry_range_le [OF wf r] by (simp add: word_le_nat_alt)
    then have "unat (?c - lo) = min (unat n) (unat hi + 1 - unat lo)"
      using c by (simp add: unat_sub_if')
    from truncated [OF n tr exact this, of ser] show ?thesis by (simp add: abstract_truncate)
  next
    case wrap
    note c = truncation_cutoff_wrap [OF registry_range_le [OF wf r] wrap(2,1)]
    have "truncate_view ?c ?w = ?w" by (rule truncate_view_below [OF wf r]) (use c in simp)
    then show ?thesis using truncate_wrapped [OF n tr, of ser] wrap c by simp
  next
    case full
    have c: "?c = 0" by (simp add: full truncation_cutoff_def Let_def word_gt_0)
    have "truncate_view ?c ?w = ?w" by (rule truncate_view_below [OF wf r]) (simp add: c)
    then show ?thesis using truncate_wrapped [OF n tr, of ser] full c by simp
  qed
  show ?thesis
  proof (cases "?c = lo")
    case True
    have "truncateOldest R n s = (Inr 0, s)" "truncate_status R n s"
      using r s n True registry_range_le [OF wf r]
      by (auto simp: truncateOldest_steps truncate_status_def truncate_plan_def snapshot_eq [OF wf r] Let_def)
    moreover have "truncate_view ?c ?w = ?w" by (rule truncate_view_below [OF wf r]) (simp add: True)
    ultimately show ?thesis using accepted True by simp
  next
    case c: False
    obtain t where t: "truncate_plan R n s = Inr (Some t)" by (rule truncate_plan_exists [OF wf r s n c])
    note b = truncate_plan_batch [OF wf r t]
    obtain ok d where w: "rdb_Write R (database s) (rd_mDisableWriteAheadLog s) (tr_batch t) = (ok, d)" by force
    show ?thesis
    proof (cases ok)
      case True
      with truncate_commit_accepted [of s t] w obtain s' where
        s': "truncate_commit R t s = (tr_purged t, s')" by auto
      have "contents (database s') = truncate_view ?c ?w"
        unfolding truncate_commit_contents [OF s' b(3)] b(1)
        by (rule truncate_batch [OF wf]) (rule fst_truncate_loop)
      with accepted True w show ?thesis by (simp add: truncateOldest_steps t s' b(2) truncate_status_def)
    next
      case False
      with Write_failed w have "contents d = ?w" by simp
      with False w show ?thesis
        by (auto simp: truncateOldest_steps t truncate_commit_def truncate_status_def intro: truncate_refused)
    qed
  qed
qed

subsection \<open>Reading\<close>

lemma refines_query:
  assumes wf: "store_wf (contents (database s))" and s: "rd_mInitialized s"
  shows "\<exists>rss. query R qs s = Inr (concat rss) \<and>
     list_all2 (answers_query (abstract (contents (database s)))) qs rss"
proof -
  let ?f = "\<lambda>(i, q). if keyable i then map response_of
      (rdb_Seek R (database s) PacketsCF (stream_key i @ be64 q)) else []"
  have "answers_query (abstract (contents (database s))) x (?f x)" for x
    using sorted_responses [OF wf, of "fst x" "snd x"] set_responses [OF wf, of "fst x" "snd x"]
    by (cases x) (simp add: answers_query_def abstract_packets)
  then have "list_all2 (answers_query (abstract (contents (database s)))) qs (map ?f qs)"
    by (simp add: list_all2_conv_all_nth)
  with query_eq [OF wf s, of qs] show ?thesis by blast
qed

lemma refines_available:
  assumes wf: "store_wf (contents (database s))" and s: "rd_mInitialized s"
  shows "\<exists>ts. queryAvailableStreams R s = Inr ts \<and> distinct (map snd ts) \<and> set ts =
     {(ag_lastReceivedNanoSeconds g, i) | i g. tb_ranges (abstract (contents (database s))) i = Some g}"
proof -
  have "{(ag_lastReceivedNanoSeconds g, i) | i g. tb_ranges (abstract (contents (database s))) i = Some g}
    = {(reg_last v, canonical i) | i v. keyable i \<and>
        contents (database s) StreamsCF (stream_key i) = Some v}"
  proof -
    have "{(ag_lastReceivedNanoSeconds g, i) | i g. \<exists>j v. keyable j \<and> i = canonical j \<and>
          contents (database s) StreamsCF (stream_key j) = Some v \<and> g = range_of v} =
        {(ag_lastReceivedNanoSeconds (range_of v), canonical j) | j v. keyable j \<and>
          contents (database s) StreamsCF (stream_key j) = Some v}" by blast
    then show ?thesis by (simp only: abstract_ranges [OF wf] range_of_simps)
  qed
  note eq = this
  show ?thesis
    unfolding eq set_available_streams [OF wf, symmetric]
    by (intro exI conjI, rule queryAvailableStreams_eq [OF wf s], rule available_distinct [OF wf], rule refl)
qed

lemma refines_number:
  assumes wf: "store_wf (contents (database s))" and s: "rd_mInitialized s"
  defines "a \<equiv> abstract (contents (database s))"
  shows "\<exists>g. getGlobalSequenceNumber R s = Inr g \<and>
     (\<forall>i r. tb_ranges a i = Some r \<longrightarrow> ag_maxSequenceNumber r \<le> g) \<and>
     (g = 0 \<or> (\<exists>i r. tb_ranges a i = Some r \<and> ag_maxSequenceNumber r = g))"
proof -
  let ?M = "registry_maxes (contents (database s))"
  have M: "m \<in> ?M \<longleftrightarrow> (\<exists>i r. tb_ranges a i = Some r \<and> ag_maxSequenceNumber r = m)" for m
    using abstract_range_keys [OF wf] registry_wfD(3) [OF wf]
    unfolding registry_maxes_def a_def mem_Collect_eq
    by (metis order_refl range_of_simps(2))
  have "Max (insert 0 ?M) \<in> insert 0 ?M"
    by (rule Max_in) (simp_all add: finite_registry_maxes)
  moreover have "m \<le> Max (insert 0 ?M)" if "m \<in> ?M" for m
    by (rule Max_ge) (use that in \<open>simp_all add: finite_registry_maxes\<close>)
  ultimately have "(\<forall>m\<in>?M. m \<le> Max (insert 0 ?M)) \<and>
      (Max (insert 0 ?M) = 0 \<or> Max (insert 0 ?M) \<in> ?M)" by auto
  then show ?thesis unfolding getGlobalSequenceNumber_eq [OF s] Ball_def M by auto
qed

subsection \<open>Runs\<close>

lemma refines_command:
  assumes wf: "store_wf (contents (database s))" and s: "rd_mInitialized s"
  shows "\<exists>x s'. run_command R ser c s = (Inr x, s') \<and> spec_step ser (command_status R ser c s) (abstract (contents (database s)))
           c x (abstract (contents (database s'))) \<and>
           store_wf (contents (database s')) \<and> rd_mInitialized s'"
proof (cases c)
  case (Write xs)
  from refines_write [OF assms, of ser xs] obtain n s' where w: "write_packets R ser xs s = (Inr n, s')"
    "spec_step ser (command_status R ser (Write xs) s) (abstract (contents (database s))) (Write xs) (NotWritten n)
      (abstract (contents (database s')))" by blast
  have "store_wf (contents (database s'))" "rd_mInitialized s'"
    using write_packets_wf [OF wf, of ser xs] operations_keep_initialized(1) [of R ser xs s] s
    by (simp_all only: w(1) snd_conv)
  with w Write show ?thesis by simp
next
  case (Truncate n)
  from refines_truncate [OF assms, of n ser] obtain p s' where w: "truncateOldest R n s = (Inr p, s')"
    "spec_step ser (truncate_status R n s) (abstract (contents (database s))) (Truncate n) (Purged p)
      (abstract (contents (database s')))" by blast
  have "store_wf (contents (database s'))" "rd_mInitialized s'"
    using truncateOldest_wf [OF wf, of n] operations_keep_initialized(2) [of R n s] s
    by (simp_all only: w(1) snd_conv)
  with w Truncate show ?thesis by simp
next
  case (Compact t)
  obtain u s' where c: "compact R t s = (Inr u, s')"
    using s by (simp add: compact_def)
  have "contents (database s') = contents (database s)" "rd_mInitialized s'"
    using compact_contents [of t s] operations_keep_initialized(3) [of R t s] s
    by (simp_all only: c snd_conv)
  with Compact c wf show ?thesis by (simp add: compacted)
next
  case Flush
  then show ?thesis using wf s by (simp add: flush_contents flushed)
next
  case (Query qs)
  from refines_query [OF assms, of qs] obtain rss where "query R qs s = Inr (concat rss)"
    "list_all2 (answers_query (abstract (contents (database s)))) qs rss" by blast
  with Query wf s show ?thesis by (simp add: queried)
next
  case AvailableStreams
  from refines_available [OF assms] obtain ts where "queryAvailableStreams R s = Inr ts"
    "spec_step ser True (abstract (contents (database s))) AvailableStreams (Streams ts)
      (abstract (contents (database s)))" using listed by blast
  with AvailableStreams wf s show ?thesis by simp
next
  case GlobalSequenceNumber
  from refines_number [OF assms] obtain g where "getGlobalSequenceNumber R s = Inr g"
    "spec_step ser True (abstract (contents (database s))) GlobalSequenceNumber (Number g)
      (abstract (contents (database s)))" using numbered by blast
  with GlobalSequenceNumber wf s show ?thesis by simp
qed

lemma refines_run:
  assumes "store_wf (contents (database s))" "rd_mInitialized s"
  shows "\<exists>xs s'. run_commands R ser cs s = (map Inr xs, s') \<and>
     spec_run ser (statuses R ser cs s) (abstract (contents (database s))) cs xs (abstract (contents (database s')))"
  using assms
proof (induction cs arbitrary: s)
  case Nil
  then show ?case by (auto intro: stop)
next
  case (Cons c cs)
  from refines_command [OF Cons.prems, of ser c] obtain x s1 where 1:
    "run_command R ser c s = (Inr x, s1)"
    "spec_step ser (command_status R ser c s) (abstract (contents (database s))) c x (abstract (contents (database s1)))"
    "store_wf (contents (database s1))" "rd_mInitialized s1" by blast
  from Cons.IH [OF 1(3,4)] obtain xs s2 where 2: "run_commands R ser cs s1 = (map Inr xs, s2)"
    "spec_run ser (statuses R ser cs s1) (abstract (contents (database s1))) cs xs (abstract (contents (database s2)))" by blast
  from step [OF 1(2) 2(2)] show ?case
    by (intro exI [of _ "x # xs"] exI [of _ s2]) (simp add: 1(1) 2(1))
qed

end

section \<open>The refinement\<close>

lemma abstract_empty: "abstract (\<lambda>c k. None) = \<lparr>tb_packets = (\<lambda>i q. None), tb_ranges = Map.empty\<rparr>"
  by (auto simp: abstract_def stored_def fun_eq_iff)

text \<open>C2.  The packet store implements its specification.  Whatever commands are run on a store
  that has any history, none of them throws; each gives the answer, and leaves the table of packets
  and of stream ranges, that the specification gives for it: a write puts the packets that have a
  key and returns the others, a truncation cuts the table at the oldest number plus the count it
  reports, a query returns the stored packets from a number on in order, the list of streams and the
  largest number are those of the table, and compaction and flushing leave the table alone.  A write is
  refused as a whole, or a truncation purges nothing although there is something to purge, exactly when the
  status the database gives for its batch is not ok, and then the table stays as it was.\<close>

theorem rocks_refines_store:
  assumes "rocks_api R contents" "store_reachable R ser contents s"
  shows "\<exists>xs s'. run_commands R ser cs s = (map Inr xs, s') \<and>
     spec_run ser (statuses R ser cs s) (abstract (contents (database s))) cs xs
       (abstract (contents (database s')))"
  using rocks_api.refines_run [OF assms(1)] rocks_api.store_reachable_wf [OF assms] by blast

lemma demo_ranges:
  "tb_ranges (abstract (mem_contents (database demo_store))) i =
     (if i = canonical demo_id
      then Some (range_of (registry_value 3 5 (smax64 100 200))) else None)"
proof (cases "is_stream i")
  case True
  then have i: "keyable i" "canonical i = i" by (simp_all add: is_stream_def)
  show ?thesis
    using True stream_key_eq_iff [OF i(1) keyable_demo_id] by (simp add: abstract_def demo_registry i(2))
next
  case False
  then show ?thesis by (auto simp: abstract_def)
qed

theorem rocks_refines_store_witness:
  "fst (run_commands mem_rocks demo_ser [Compact 7, GlobalSequenceNumber, Query [(demo_id, 4)]]
     demo_store) = map Inr [Finished, Number 5, Responses
       [\<lparr>qr_packet = demo_ser (demo_packet 5), qr_receivedAt = 200, qr_sequenceNumber = 5\<rparr>]]"
proof -
  let ?r = "\<lparr>qr_packet = demo_ser (demo_packet 5), qr_receivedAt = 200, qr_sequenceNumber = 5\<rparr>"
  let ?cs = "[Compact 7, GlobalSequenceNumber, Query [(demo_id, 4)]]"
  let ?a = "abstract (mem_contents (database demo_store))"
  obtain xs s' where run: "run_commands mem_rocks demo_ser ?cs demo_store = (map Inr xs, s')"
    "spec_run demo_ser (statuses mem_rocks demo_ser ?cs demo_store) ?a ?cs xs (abstract (mem_contents (database s')))"
    using rocks_refines_store [OF mem.rocks_api_axioms demo_reachable, of ?cs] by blast
  from run(2) obtain g rs where xs: "xs = [Finished, Number g, Responses rs]"
    and g: "\<forall>i r. tb_ranges ?a i = Some r \<longrightarrow> ag_maxSequenceNumber r \<le> g"
      "g = 0 \<or> (\<exists>i r. tb_ranges ?a i = Some r \<and> ag_maxSequenceNumber r = g)"
    and rs: "answers_query ?a (demo_id, 4) rs"
    by (simp only: spec_run_simps spec_step_simps) (force simp: list_all2_Cons1)
  from g have "g = 5" by (auto simp: demo_ranges split: if_splits)
  from rs have "set rs = {?r}" "sorted_wrt (\<lambda>x y. qr_sequenceNumber x < qr_sequenceNumber y) rs"
    by (auto simp: answers_query_def abstract_packets demo_stored split: if_splits)
  then have "rs = [?r]" by (cases rs; cases "tl rs") auto
  with run(1) xs \<open>g = 5\<close> show ?thesis by simp
qed

end
