(* ===== verification/Rocks_Durability.thy ===== *)
theory Rocks_Durability
  imports Rocks_Properties
begin

text \<open>
  What a crash leaves of the RocksDB packet store.  \<open>survives d w\<close> says that a database reopened after
  the process died in state \<open>d\<close> may have the contents \<open>w\<close>.  RocksDB documents when it must have
  them: the write-ahead log replays every logged batch, a manual flush persists the column families
  it names, and without the log each column family is persisted on its own, at times the library chooses
  unless the database was opened with the option \<open>atomic_flush\<close>.
\<close>

section \<open>The laws of persistence\<close>

locale rocks_durable = rocks_api R contents for R :: "'db rocks" and contents +
  fixes survives :: "'db \<Rightarrow> view \<Rightarrow> bool"
  assumes Write_logged: "rdb_Write R d False b = (True, d') \<Longrightarrow> survives d' w \<Longrightarrow>
      \<exists>w0. survives d w0 \<and> w = apply_batch b w0"
    and Write_unlogged: "rdb_Write R d l b = (ok, d') \<Longrightarrow> l \<or> \<not> ok \<Longrightarrow> survives d' w \<Longrightarrow>
      \<exists>w0. survives d w0 \<and> (\<forall>c. w c = w0 c \<or> w c = contents d' c)"
    and Compact_survives: "survives (rdb_CompactRange R d c r) w \<Longrightarrow>
      \<exists>w0. survives d w0 \<and> (\<forall>c. w c = w0 c \<or> w c = contents d c)"
    and Flush_survives: "survives (snd (rdb_Flush R d cs)) w \<Longrightarrow>
      \<exists>w0. survives d w0 \<and> (\<forall>c. w c = w0 c \<or> w c = contents d c)"
    and Flush_persists: "rdb_Flush R d cs = (True, d') \<Longrightarrow> survives d' w \<Longrightarrow> c \<in> set cs \<Longrightarrow>
      w c = contents d' c"

text \<open>The states of a handle since it was opened, oldest first, and the current one.\<close>

inductive store_session ::
  "'db rocks \<Rightarrow> (Packet \<Rightarrow> string) \<Rightarrow> 'db RocksDatabase \<Rightarrow> 'db RocksDatabase list \<Rightarrow> 'db RocksDatabase \<Rightarrow> bool"
  for R ser s0 where
  opened: "store_session R ser s0 [] s0"
| written: "store_session R ser s0 hs s \<Longrightarrow>
     store_session R ser s0 (hs @ [s]) (snd (write_packets R ser xs s))"
| truncated: "store_session R ser s0 hs s \<Longrightarrow>
     store_session R ser s0 (hs @ [s]) (snd (truncateOldest R n s))"
| compacted: "store_session R ser s0 hs s \<Longrightarrow>
     store_session R ser s0 (hs @ [s]) (snd (compact R t s))"
| flushed: "store_session R ser s0 hs s \<Longrightarrow> store_session R ser s0 (hs @ [s]) (flush R s)"

lemma operations_keep_log [simp]:
  "rd_mDisableWriteAheadLog (snd (write_packets R ser xs s)) = rd_mDisableWriteAheadLog s"
  "rd_mDisableWriteAheadLog (snd (truncateOldest R n s)) = rd_mDisableWriteAheadLog s"
  "rd_mDisableWriteAheadLog (snd (compact R t s)) = rd_mDisableWriteAheadLog s"
  "rd_mDisableWriteAheadLog (flush R s) = rd_mDisableWriteAheadLog s"
  by (auto simp: write_packets_def truncateOldest_def compact_def flush_def Let_def
      split: sum.split prod.split)

lemma store_session_log:
  "store_session R ser s0 hs s \<Longrightarrow> rd_mDisableWriteAheadLog s = rd_mDisableWriteAheadLog s0"
  by (induction rule: store_session.induct) simp_all

text \<open>A handle is closed as it was opened, whatever happened in between: the destructor releases the
  handle of each column family that was opened, once, and closes the database.\<close>

lemma operations_keep_handle:
  assumes "handle_ok s"
  shows "handle_ok (snd (write_packets R ser xs s))" "handle_ok (snd (truncateOldest R n s))"
    "handle_ok (snd (compact R t s))" "handle_ok (flush R s)"
  using assms
  by (auto simp: write_packets_def truncateOldest_def compact_def flush_def Let_def handle_ok_def
      set_database_def ensureInitialized_def split: sum.split prod.split)

lemma session_closes:
  assumes "RocksDatabase_construct E opts disk = (Inr s0, disk')" "store_session R ser s0 hs s"
  shows "fst (RocksDatabase_destruct s) =
    (if rd_mInitialized s then map fst (column_family_descriptors opts) else [])"
proof -
  from assms(2) have "handle_ok s"
    by (induction rule: store_session.induct)
      (auto intro: operations_keep_handle construct_handle [OF assms(1)])
  then show ?thesis by (rule destruct_releases)
qed

text \<open>What an operation asks of the database: nothing, or at most one write and then compactions or a
  flush.\<close>

definition compactions :: "'db rocks \<Rightarrow> 'db \<Rightarrow> 'db \<Rightarrow> bool" where
  "compactions R d d' \<longleftrightarrow> (\<exists>xs. d' = foldl (\<lambda>d (c, r). rdb_CompactRange R d c r) d xs)"

inductive db_operation :: "'db rocks \<Rightarrow> bool \<Rightarrow> 'db \<Rightarrow> 'db \<Rightarrow> bool" for R l d where
  nothing: "db_operation R l d d"
| writes: "rdb_Write R d l b = (ok, d1) \<Longrightarrow> compactions R d1 d2 \<Longrightarrow> db_operation R l d d2"
| compacts: "compactions R d d2 \<Longrightarrow> db_operation R l d d2"
| flushes: "db_operation R l d (snd (rdb_Flush R d cs))"

lemma compactions_refl: "compactions R d d"
  unfolding compactions_def by (rule exI [of _ "[]"]) simp

lemma compactions_truncate:
  "compactions R d (rdb_CompactRange R
      (foldl (\<lambda>d r. rdb_CompactRange R d PacketsCF (Some r)) d rs) StreamsCF None)"
proof -
  have "foldl (\<lambda>d r. rdb_CompactRange R d PacketsCF (Some r)) d rs =
     foldl (\<lambda>d (c, r). rdb_CompactRange R d c r) d (map (\<lambda>r. (PacketsCF, Some r)) rs)" for d
    by (induction rs arbitrary: d) simp_all
  then show ?thesis
    unfolding compactions_def
    by (intro exI [of _ "map (\<lambda>r. (PacketsCF, Some r)) rs @ [(StreamsCF, None)]"]) simp
qed

lemma operations_on_database:
  "db_operation R (rd_mDisableWriteAheadLog s) (database s) (database (snd (write_packets R ser xs s)))"
  "db_operation R (rd_mDisableWriteAheadLog s) (database s) (database (snd (truncateOldest R n s)))"
  "db_operation R (rd_mDisableWriteAheadLog s) (database s) (database (snd (compact R t s)))"
  "db_operation R (rd_mDisableWriteAheadLog s) (database s) (database (flush R s))"
proof -
  show "db_operation R (rd_mDisableWriteAheadLog s) (database s) (database (snd (write_packets R ser xs s)))"
    by (auto simp: write_packets_def Let_def split: sum.split prod.split
        intro!: db_operation.nothing intro: db_operation.writes [OF _ compactions_refl])
  show "db_operation R (rd_mDisableWriteAheadLog s) (database s) (database (snd (truncateOldest R n s)))"
    by (auto simp: truncateOldest_def Let_def split: sum.split prod.split
        intro!: db_operation.nothing
        intro: db_operation.writes [OF _ compactions_refl] db_operation.writes [OF _ compactions_truncate])
  have "compactions R d (rdb_CompactRange R (rdb_CompactRange R d PacketsCF None) StreamsCF None)" for d
    unfolding compactions_def by (rule exI [of _ "[(PacketsCF, None), (StreamsCF, None)]"]) simp
  then show "db_operation R (rd_mDisableWriteAheadLog s) (database s) (database (snd (compact R t s)))"
    by (auto simp: compact_def Let_def split: sum.split intro: db_operation.nothing db_operation.compacts)
  show "db_operation R (rd_mDisableWriteAheadLog s) (database s) (database (flush R s))"
    by (auto simp: flush_def intro: db_operation.nothing db_operation.flushes)
qed

lemma store_session_induct [consumes 1, case_names opened operation]:
  assumes "store_session R ser s0 hs s" "P [] s0"
    and "\<And>hs s s'. store_session R ser s0 hs s \<Longrightarrow> P hs s \<Longrightarrow>
       db_operation R (rd_mDisableWriteAheadLog s) (database s) (database s') \<Longrightarrow> P (hs @ [s]) s'"
  shows "P hs s"
  using assms(1)
proof (induction rule: store_session.induct)
  case opened
  show ?case by (rule assms(2))
qed (blast intro: assms(3) operations_on_database)+

section \<open>What survives\<close>

context rocks_durable
begin

lemma compactions_contents: "compactions R d d' \<Longrightarrow> contents d' = contents d"
proof -
  have "contents (foldl (\<lambda>d (c, r). rdb_CompactRange R d c r) d xs) = contents d" for xs
    by (induction xs arbitrary: d) (auto simp: CompactRange)
  then show "compactions R d d' \<Longrightarrow> contents d' = contents d" by (auto simp: compactions_def)
qed

lemma compactions_survive:
  assumes "compactions R d d'" "survives d' w"
  shows "\<exists>w0. survives d w0 \<and> (\<forall>c. w c = w0 c \<or> w c = contents d c)"
proof -
  have "\<exists>w0. survives d w0 \<and> (\<forall>c. w c = w0 c \<or> w c = contents d c)"
    if "survives (foldl (\<lambda>d (c, r). rdb_CompactRange R d c r) d xs) w" for xs
    using that
  proof (induction xs arbitrary: d)
    case (Cons x xs)
    obtain c r where x: "x = (c, r)" by (cases x)
    from Cons.IH [of "rdb_CompactRange R d c r"] Cons.prems obtain w1 where
      1: "survives (rdb_CompactRange R d c r) w1" "\<forall>c. w c = w1 c \<or> w c = contents d c"
      by (auto simp: x CompactRange)
    from Compact_survives [OF 1(1)] obtain w0 where
      "survives d w0" "\<forall>c. w1 c = w0 c \<or> w1 c = contents d c" by blast
    with 1(2) show ?case by metis
  qed auto
  with assms show ?thesis by (auto simp: compactions_def)
qed

text \<open>Without the log, an operation adds the contents it leaves to what each column family may come
  back as.\<close>

lemma operation_survives:
  assumes "db_operation R l d d'" "survives d' w" "l"
  shows "\<exists>w0. survives d w0 \<and> (\<forall>c. w c = w0 c \<or> w c = contents d c \<or> w c = contents d' c)"
  using assms
proof (induction rule: db_operation.induct)
  case (writes b ok d1 d2)
  from compactions_survive [OF writes(2,3)] obtain w1 where
    1: "survives d1 w1" "\<forall>c. w c = w1 c \<or> w c = contents d1 c" by blast
  from Write_unlogged [OF writes(1) _ 1(1)] writes(4) obtain w0 where
    "survives d w0" "\<forall>c. w1 c = w0 c \<or> w1 c = contents d1 c" by blast
  with 1(2) compactions_contents [OF writes(2)] show ?case by metis
next
  case (compacts d2)
  from compactions_survive [OF compacts(1,2)] show ?case by blast
next
  case (flushes cs)
  from Flush_survives [OF flushes(1)] show ?case by blast
qed blast

text \<open>With the log, a database that comes back complete still does after the operation.\<close>

lemma operation_logged:
  assumes "db_operation R l d d'" "\<not> l" "\<And>w. survives d w \<Longrightarrow> w = contents d" "survives d' w"
  shows "w = contents d'"
proof -
  show ?thesis
    using assms
  proof (induction rule: db_operation.induct)
    case (writes b ok d1 d2)
    from compactions_survive [OF writes(2,5)] obtain w1 where
      1: "survives d1 w1" "\<forall>c. w c = w1 c \<or> w c = contents d1 c" by blast
    have "w1 = contents d1"
    proof (cases ok)
      case True
      with writes have wr: "rdb_Write R d False b = (True, d1)" by simp
      from Write_logged [OF wr 1(1)] obtain w0 where "survives d w0" "w1 = apply_batch b w0" by blast
      with writes(4) Write_ok [OF wr] show ?thesis by simp
    next
      case False
      with writes have wr: "rdb_Write R d l b = (False, d1)" by simp
      from Write_unlogged [OF wr _ 1(1)] obtain w0 where
        w0: "survives d w0" "\<forall>c. w1 c = w0 c \<or> w1 c = contents d1 c" by blast
      have "w1 c = contents d1 c" for c
        using w0(2) writes(4) [OF w0(1)] Write_failed [OF wr] by metis
      then show ?thesis by (rule ext)
    qed
    with 1(2) have "w c = contents d1 c" for c by metis
    then have "w = contents d1" by (rule ext)
    with compactions_contents [OF writes(2)] show ?case by simp
  next
    case (compacts d2)
    from compactions_survive [OF compacts(1,4)] obtain w0 where
      w0: "survives d w0" "\<forall>c. w c = w0 c \<or> w c = contents d c" by blast
    have "w c = contents d c" for c using w0(2) compacts(3) [OF w0(1)] by metis
    then have "w = contents d" by (rule ext)
    with compactions_contents [OF compacts(1)] show ?case by simp
  next
    case (flushes cs)
    from Flush_survives [OF flushes(3)] obtain w0 where
      w0: "survives d w0" "\<forall>c. w c = w0 c \<or> w c = contents d c" by blast
    have "w c = contents d c" for c using w0(2) flushes(2) [OF w0(1)] by metis
    then have "w = contents d" by (rule ext)
    with Flush show ?case by simp
  qed blast
qed

lemma session_survives:
  assumes "store_session R ser s0 hs s" "\<And>w. survives (database s0) w \<Longrightarrow> w = contents (database s0)"
    and "rd_mDisableWriteAheadLog s0" "survives (database s) w"
  shows "\<exists>h\<in>set (hs @ [s]). w c = contents (database h) c"
  using assms
proof (induction arbitrary: w rule: store_session_induct)
  case (operation hs s s')
  have "rd_mDisableWriteAheadLog s" using store_session_log [OF operation(1)] operation(5) by simp
  from operation_survives [OF operation(2,6) this] obtain w0 where
    "survives (database s) w0" "w c = w0 c \<or> w c = contents (database s) c \<or> w c = contents (database s') c"
    by blast
  with operation(3) [OF operation(4,5), of w0] show ?case by auto
qed simp

lemma session_logged:
  assumes "store_session R ser s0 hs s" "\<And>w. survives (database s0) w \<Longrightarrow> w = contents (database s0)"
    and "\<not> rd_mDisableWriteAheadLog s0" "survives (database s) w"
  shows "w = contents (database s)"
  using assms
proof (induction arbitrary: w rule: store_session_induct)
  case (operation hs s s')
  have "\<not> rd_mDisableWriteAheadLog s" using store_session_log [OF operation(1)] operation(5) by simp
  from operation_logged [OF operation(2) this _ operation(6)] operation(3) [OF operation(4,5)]
  show ?case by blast
qed simp

lemma flush_survives:
  assumes "rd_mInitialized s" "fst (rdb_Flush R (database s) [PacketsCF, StreamsCF])"
    and "survives (database (flush R s)) w"
  shows "w PacketsCF = contents (database s) PacketsCF \<and> w StreamsCF = contents (database s) StreamsCF"
proof -
  obtain d where d: "rdb_Flush R (database s) [PacketsCF, StreamsCF] = (True, d)"
    using assms(2) by (cases "rdb_Flush R (database s) [PacketsCF, StreamsCF]") simp
  with assms(1,3) have "survives d w" by (simp add: flush_def)
  from Flush_persists [OF d this] Flush [of "database s" "[PacketsCF, StreamsCF]"] d show ?thesis by simp
qed

end

section \<open>Flushing without \<open>atomic_flush\<close>\<close>

text \<open>When RocksDB flushes a memory table is its own decision.  It may have flushed any one column family
  after a batch that was not logged; only a database opened with \<open>atomic_flush\<close> keeps the families of a
  batch together.\<close>

locale rocks_flushing = rocks_durable R contents survives
  for R :: "'db rocks" and contents and survives +
  fixes E :: "('disk, 'db) open_env" and flushed_together :: "'db \<Rightarrow> bool"
  assumes Open_flushing: "rdb_Open E disk options path cfs = (Some d, disk') \<Longrightarrow>
      flushed_together d = atomic_flush options"
    and Flush_alone: "\<not> flushed_together d \<Longrightarrow> rdb_Write R d True b = (True, d') \<Longrightarrow> survives d w \<Longrightarrow>
      survives d' (w(c := contents d' c))"
begin

lemma construct_flushing:
  assumes "RocksDatabase_construct E opts disk = (Inr s, disk')" "rd_mInitialized s"
  shows "\<not> flushed_together (database s)" "rd_mDisableWriteAheadLog s = (\<not> mEnableWriteAheadLog opts)"
  using assms
  by (auto simp: RocksDatabase_construct_def open_database_def RocksDatabase_init_def database_def
      database_options_def default_db_options_def Let_def
      split: if_splits sum.splits option.splits prod.splits dest!: Open_flushing)

end

text \<open>A store with one packet and no registry entry.\<close>

abbreviation unlisted :: "string \<Rightarrow> string \<Rightarrow> view" where
  "unlisted k v \<equiv> (\<lambda>c k. None)(PacketsCF := [k \<mapsto> v])"

context rocks_api
begin

lemma write_batch_first:
  assumes "contents d = (\<lambda>c k. None)" "keyable (stream_identifier p)"
  shows "write_batch R ser d [(t, p)] =
    ([], [Put PacketsCF (stream_key (stream_identifier p) @ be64 (sequence_number p)) (packet_value ser t p),
          Put StreamsCF (stream_key (stream_identifier p))
            (registry_value (sequence_number p) (sequence_number p) t)])"
  using assms by (simp add: write_batch_def write_packet_def aggregate_packet_def merge_registry_def Get Let_def)

lemma write_packets_first:
  assumes "contents (database s) = (\<lambda>c k. None)" "keyable (stream_identifier p)"
    and "write_packets R ser [(t, p)] s = (Inr [], s')"
  obtains b d where "rdb_Write R (database s) (rd_mDisableWriteAheadLog s) b = (True, d)"
    "database s' = d" "contents d PacketsCF =
       [stream_key (stream_identifier p) @ be64 (sequence_number p) \<mapsto> packet_value ser t p]"
proof -
  note b = write_batch_first [OF assms(1,2), of ser t]
  let ?b = "snd (write_batch R ser (database s) [(t, p)])"
  obtain ok d where w: "rdb_Write R (database s) (rd_mDisableWriteAheadLog s) ?b = (ok, d)" by force
  with assms(3) have ok: "ok" "database s' = d"
    by (auto simp: write_packets_def b Let_def split: sum.splits if_splits)
  with w Write_ok [of "database s" _ ?b d] have "contents d = apply_batch ?b (\<lambda>c k. None)"
    by (simp add: assms(1))
  then have "contents d PacketsCF =
      [stream_key (stream_identifier p) @ be64 (sequence_number p) \<mapsto> packet_value ser t p]"
    by (simp add: b)
  with that [OF _ ok(2)] w ok(1) show thesis by simp
qed

lemma unlisted_answers:
  assumes s: "rd_mInitialized s" and i: "keyable i"
    and c: "contents (database s) = unlisted (stream_key i @ be64 n) (packet_value ser t p)"
  shows "query R [(i, 0)] s = Inr [\<lparr>qr_packet = ser p, qr_receivedAt = t, qr_sequenceNumber = n\<rparr>]"
    "queryAvailableStreams R s = Inr []" "getGlobalSequenceNumber R s = Inr 0"
    "\<not> store_wf (contents (database s))"
proof -
  let ?k = "stream_key i @ be64 n" and ?v = "packet_value ser t p"
  have e: "ensureInitialized s = Inr ()" using s by simp
  have "set (rdb_Seek R (database s) PacketsCF (stream_key i @ be64 0)) = {(?k, ?v)}"
    using i by (auto simp: Seek_set c append_le_iff split: if_splits)
  moreover have "key_sorted (rdb_Seek R (database s) PacketsCF (stream_key i @ be64 0))" by (rule Seek_sorted)
  ultimately have seek: "rdb_Seek R (database s) PacketsCF (stream_key i @ be64 0) = [(?k, ?v)]"
    by (cases "rdb_Seek R (database s) PacketsCF (stream_key i @ be64 0)";
        cases "tl (rdb_Seek R (database s) PacketsCF (stream_key i @ be64 0))") auto
  have start: "starts_with ?k (stream_key i)" by (simp add: starts_with_def)
  show "query R [(i, 0)] s = Inr [\<lparr>qr_packet = ser p, qr_receivedAt = t, qr_sequenceNumber = n\<rparr>]"
    unfolding query_def e sum.case using i by (simp add: query_stream_def seek start be_simps)
  have "rdb_Scan R (database s) StreamsCF = []"
    using Scan_set [of "database s" StreamsCF] by (simp add: c)
  then show "queryAvailableStreams R s = Inr []" "getGlobalSequenceNumber R s = Inr 0"
    using s by (simp_all add: queryAvailableStreams_def getGlobalSequenceNumber_def)
  show "\<not> store_wf (contents (database s))"
    using packets_wfD(3) [of "contents (database s)" ?k ?v] by (auto simp: c)
qed

end

section \<open>An in-memory database with a disk\<close>

text \<open>With the contents a crash may bring back besides the present ones.  An unlogged batch adds those in
  which some column families were flushed after it, and none when they are only flushed together; a
  logged batch, a flush and a compaction persist what they cover.\<close>

record disk_db =
  dk_memory :: mem_db
  dk_disk :: "view set"
  dk_together :: bool      \<comment> \<open>opened with \<open>atomic_flush\<close>\<close>

definition disk_contents :: "disk_db \<Rightarrow> view" where
  "disk_contents d = mem_contents (dk_memory d)"

definition disk_survives :: "disk_db \<Rightarrow> view \<Rightarrow> bool" where
  "disk_survives d w \<longleftrightarrow> w = disk_contents d \<or> w \<in> dk_disk d"

definition disk_persist :: "column_family list \<Rightarrow> disk_db \<Rightarrow> disk_db" where
  "disk_persist cs d = d\<lparr>dk_disk :=
     {\<lambda>c. if dk_together d \<or> c \<in> set cs then disk_contents d c else w c | w. disk_survives d w}\<rparr>"

text \<open>After an accepted batch that left the memory \<open>m\<close>.\<close>

definition disk_unlogged :: "mem_db \<Rightarrow> disk_db \<Rightarrow> disk_db" where
  "disk_unlogged m d = d\<lparr>dk_memory := m, dk_disk := {w. \<exists>w0. disk_survives d w0 \<and>
     (if dk_together d then w = w0 else \<forall>c. w c = w0 c \<or> w c = mem_contents m c)}\<rparr>"

definition disk_write :: "disk_db \<Rightarrow> bool \<Rightarrow> batch_op list \<Rightarrow> bool \<times> disk_db" where
  "disk_write d w b =
     (case rdb_Write mem_rocks (dk_memory d) w b of (ok, m) \<Rightarrow>
        (ok, if \<not> ok then d else if w then disk_unlogged m d else d\<lparr>dk_memory := m, dk_disk := {}\<rparr>))"

definition disk_rocks :: "disk_db rocks" where
  "disk_rocks = \<lparr>
     rdb_Get = (\<lambda>d. rdb_Get mem_rocks (dk_memory d)),
     rdb_Scan = (\<lambda>d. rdb_Scan mem_rocks (dk_memory d)),
     rdb_Seek = (\<lambda>d. rdb_Seek mem_rocks (dk_memory d)),
     rdb_Write = disk_write,
     rdb_CompactRange = (\<lambda>d c r. disk_persist [c] d),
     rdb_Flush = (\<lambda>d cs. if mem_fails (dk_memory d) then (False, d) else (True, disk_persist cs d)),
     rdb_walk = (\<lambda>d. rdb_walk mem_rocks (dk_memory d))\<rparr>"

lemma disk_persist_contents [simp]: "disk_contents (disk_persist cs d) = disk_contents d"
  by (simp add: disk_persist_def disk_contents_def)

lemma disk_survives_refl: "disk_survives d (disk_contents d)"
  by (simp add: disk_survives_def)

lemma disk_survives_persist:
  "disk_survives (disk_persist cs d) w \<Longrightarrow>
     \<exists>w0. disk_survives d w0 \<and> (\<forall>c. w c = w0 c \<or> w c = disk_contents d c)"
  "disk_survives (disk_persist cs d) w \<Longrightarrow> c \<in> set cs \<Longrightarrow> w c = disk_contents d c"
proof -
  show "disk_survives (disk_persist cs d) w \<Longrightarrow> c \<in> set cs \<Longrightarrow> w c = disk_contents d c"
    unfolding disk_survives_def [of "disk_persist cs d"] disk_persist_contents
    by (auto simp: disk_persist_def)
  assume "disk_survives (disk_persist cs d) w"
  then consider "w = disk_contents d" |
      w0 where "disk_survives d w0" "w = (\<lambda>c. if dk_together d \<or> c \<in> set cs then disk_contents d c else w0 c)"
    unfolding disk_survives_def [of "disk_persist cs d"] disk_persist_contents
    by (auto simp: disk_persist_def)
  then show "\<exists>w0. disk_survives d w0 \<and> (\<forall>c. w c = w0 c \<or> w c = disk_contents d c)"
    by cases (use disk_survives_refl in blast, force)
qed

lemma disk_write_contents:
  assumes "disk_write d l b = (ok, d')"
  shows "disk_contents d' = (if ok then apply_batch b (disk_contents d) else disk_contents d)"
proof -
  obtain m where m: "rdb_Write mem_rocks (dk_memory d) l b = (ok, m)"
    using assms by (auto simp: disk_write_def split: prod.splits)
  with assms have "d' = (if \<not> ok then d else if l then disk_unlogged m d else d\<lparr>dk_memory := m, dk_disk := {}\<rparr>)"
    by (simp add: disk_write_def)
  then show ?thesis
    using mem.Write_ok [of "dk_memory d" l b m] m by (auto simp: disk_contents_def disk_unlogged_def)
qed

lemma disk_write_unlogged:
  assumes "disk_write d True b = (True, d')"
  shows "disk_survives d' w \<longleftrightarrow> w = disk_contents d' \<or> (\<exists>w0. disk_survives d w0 \<and>
     (if dk_together d then w = w0 else \<forall>c. w c = w0 c \<or> w c = disk_contents d' c))"
proof -
  obtain m where "d' = disk_unlogged m d"
    using assms by (auto simp: disk_write_def split: prod.splits if_splits)
  then have "disk_contents d' = mem_contents m" "dk_disk d' = {w. \<exists>w0. disk_survives d w0 \<and>
      (if dk_together d then w = w0 else \<forall>c. w c = w0 c \<or> w c = mem_contents m c)}"
    by (simp_all add: disk_unlogged_def disk_contents_def)
  then show ?thesis unfolding disk_survives_def [of d'] by simp
qed

interpretation disk: rocks_api disk_rocks disk_contents
  by unfold_locales (auto simp: disk_rocks_def mem.Get mem.Scan_sorted mem.Scan_set mem.Seek_sorted mem.Seek_set
      disk_write_contents simp flip: disk_contents_def)

interpretation disk: rocks_durable disk_rocks disk_contents disk_survives
proof unfold_locales
  fix d b d' w assume wr: "rdb_Write disk_rocks d False b = (True, d')" and "disk_survives d' w"
  then have "w = disk_contents d'"
    by (auto simp: disk_rocks_def disk_write_def disk_survives_def split: prod.splits)
  with disk.Write_ok [OF wr] show "\<exists>w0. disk_survives d w0 \<and> w = apply_batch b w0"
    by (intro exI [of _ "disk_contents d"]) (simp add: disk_survives_refl)
next
  fix d l b ok d' w assume wr: "rdb_Write disk_rocks d l b = (ok, d')" "l \<or> \<not> ok" "disk_survives d' w"
  show "\<exists>w0. disk_survives d w0 \<and> (\<forall>c. w c = w0 c \<or> w c = disk_contents d' c)"
  proof (cases ok)
    case True
    with wr have "disk_write d True b = (True, d')" by (auto simp: disk_rocks_def)
    from disk_write_unlogged [OF this, of w] wr(3) disk_survives_refl [of d] show ?thesis
      by (auto split: if_splits)
  next
    case False
    with wr(1) have "d' = d" by (auto simp: disk_rocks_def disk_write_def split: prod.splits if_splits)
    with wr(3) show ?thesis by blast
  qed
qed (auto simp: disk_rocks_def dest: disk_survives_persist split: if_splits)

text \<open>Opened in a file system that is the list of its paths, empty.\<close>

definition disk_empty :: disk_db where
  "disk_empty = \<lparr>dk_memory = mem_empty, dk_disk = {}, dk_together = False\<rparr>"

definition disk_env :: "(string list, disk_db) open_env" where
  "disk_env = \<lparr>path_parent = (\<lambda>p. None), path_exists = (\<lambda>disk p. p \<in> set disk),
     create_directories = (\<lambda>disk p. (Inr True, p # disk)), rdb_DestroyDB = (\<lambda>disk p. remove1 p disk),
     rdb_Open = (\<lambda>disk options p cfs. (Some (disk_empty\<lparr>dk_together := atomic_flush options\<rparr>), p # disk))\<rparr>"

interpretation disk: rocks_flushing disk_rocks disk_contents disk_survives disk_env dk_together
proof unfold_locales
  fix d b d' w c
  assume d: "\<not> dk_together d" "rdb_Write disk_rocks d True b = (True, d')" "disk_survives d w"
  then have "disk_write d True b = (True, d')" by (simp add: disk_rocks_def)
  from disk_write_unlogged [OF this] d(1,3) show "disk_survives d' (w(c := disk_contents d' c))"
    by auto
qed (auto simp: disk_env_def)

section \<open>A crash between two flushes\<close>

definition disk_handle :: "disk_db \<Rightarrow> disk_db RocksDatabase" where
  "disk_handle d = \<lparr>rd_mOptions = RocksDatabaseOptions_init\<lparr>mDatabaseDirectory := ''db''\<rparr>, rd_mDatabase = Some d,
     rd_mDisableWriteAheadLog = True, rd_mInitialized = True\<rparr>"

lemma disk_handle_simps [simp]:
  "rd_mInitialized (disk_handle d)" "rd_mDisableWriteAheadLog (disk_handle d)"
  "database (disk_handle d) = d"
  by (simp_all add: disk_handle_def database_def)

lemma disk_empty_contents [simp]: "disk_contents disk_empty = (\<lambda>c k. None)"
  by (simp add: disk_contents_def disk_empty_def)

lemma disk_empty_survives [simp]: "disk_survives disk_empty w \<longleftrightarrow> w = (\<lambda>c k. None)"
  by (auto simp: disk_survives_def) (simp add: disk_empty_def)

lemma disk_construct:
  "RocksDatabase_construct disk_env (RocksDatabaseOptions_init\<lparr>mDatabaseDirectory := ''db''\<rparr>) [] =
     (Inr (disk_handle disk_empty), [''db''])"
  by (simp add: RocksDatabase_construct_def open_database_def RocksDatabase_init_def hasDatabaseDirectory_def
      getDatabaseDirectory_def ensure_parent_def disk_env_def disk_handle_def disk_empty_def
      database_options_def default_db_options_def RocksDatabaseOptions_init_def Let_def)

lemma disk_write_demo:
  obtains s where "write_packets disk_rocks demo_ser [(100, demo_packet 3)] (disk_handle disk_empty) = (Inr [], s)"
    "rd_mInitialized s" "\<not> mem_fails (dk_memory (database s))"
    "disk_contents (database s) StreamsCF = [stream_key demo_id \<mapsto> registry_value 3 3 100]"
proof -
  have e: "ensureInitialized (disk_handle disk_empty) = Inr ()" by simp
  have b: "write_batch disk_rocks demo_ser disk_empty [(100, demo_packet 3)] =
      ([], [Put PacketsCF (stream_key demo_id @ be64 3) (packet_value demo_ser 100 (demo_packet 3)),
            Put StreamsCF (stream_key demo_id) (registry_value 3 3 100)])"
    using disk.write_batch_first [OF disk_empty_contents, of "demo_packet 3" demo_ser 100] by simp
  let ?m = "mem_empty\<lparr>mem_entries := (\<lambda>_. [])
     (PacketsCF := [(stream_key demo_id @ be64 3, packet_value demo_ser 100 (demo_packet 3))],
      StreamsCF := [(stream_key demo_id, registry_value 3 3 100)])\<rparr>"
  have "write_packets disk_rocks demo_ser [(100, demo_packet 3)] (disk_handle disk_empty) =
      (Inr [], disk_handle (disk_unlogged ?m disk_empty))"
    unfolding write_packets_def e sum.case disk_handle_simps b
    by (simp add: disk_rocks_def disk_write_def mem_rocks_def disk_empty_def mem_empty_def Let_def
        set_database_def disk_handle_def)
  then show thesis
    by (rule that) (simp_all add: disk_unlogged_def disk_contents_def mem_contents_def mem_empty_def)
qed

section \<open>Properties\<close>

text \<open>C19.  Recovery after a crash.  With the write-ahead log, a store that is killed at any moment comes
  back with exactly its contents.  Without it, each column family comes back as it was at some moment
  of the session.  After a flush that the database reports as done, packets and registry both come back
  as they were, with or without the log.\<close>

theorem crash_recovery:
  assumes "rocks_durable R contents survives"
    and "\<And>w. survives (database s0) w \<Longrightarrow> w = contents (database s0)"
    and "store_session R ser s0 hs s" "survives (database s) w"
  shows "(if rd_mDisableWriteAheadLog s0
          then \<forall>c. \<exists>h\<in>set (hs @ [s]). w c = contents (database h) c
          else w = contents (database s)) \<and>
    (rd_mInitialized s \<and> fst (rdb_Flush R (database s) [PacketsCF, StreamsCF]) \<longrightarrow>
       (\<forall>w'. survives (database (flush R s)) w' \<longrightarrow>
          w' PacketsCF = contents (database s) PacketsCF \<and> w' StreamsCF = contents (database s) StreamsCF))"
  using rocks_durable.session_survives [OF assms(1,3,2) _ assms(4)]
    rocks_durable.session_logged [OF assms(1,3,2) _ assms(4)]
    rocks_durable.flush_survives [OF assms(1)] by auto

theorem crash_recovery_witness:
  "{w. disk_survives (database (flush disk_rocks (snd (write_packets disk_rocks demo_ser
      [(100, demo_packet 3)] (disk_handle disk_empty))))) w \<and> w StreamsCF = Map.empty} = {}"
proof -
  obtain s where s: "write_packets disk_rocks demo_ser [(100, demo_packet 3)] (disk_handle disk_empty) = (Inr [], s)"
    "rd_mInitialized s" "\<not> mem_fails (dk_memory (database s))"
    "disk_contents (database s) StreamsCF = [stream_key demo_id \<mapsto> registry_value 3 3 100]"
    by (rule disk_write_demo)
  have session: "store_session disk_rocks demo_ser (disk_handle disk_empty) ([] @ [disk_handle disk_empty]) s"
    using store_session.written [OF store_session.opened, of disk_rocks demo_ser "disk_handle disk_empty"
        "[(100, demo_packet 3)]"] by (simp add: s(1))
  have "fst (rdb_Flush disk_rocks (database s) [PacketsCF, StreamsCF])"
    using s(3) by (simp add: disk_rocks_def)
  with crash_recovery [OF disk.rocks_durable_axioms _ session disk_survives_refl] s(2)
  have "disk_survives (database (flush disk_rocks s)) w \<longrightarrow> w StreamsCF = disk_contents (database s) StreamsCF" for w
    by auto
  moreover have "disk_contents (database s) StreamsCF \<noteq> Map.empty" by (simp only: s(4) map_upd_nonempty not_False_eq_True)
  ultimately show ?thesis by (auto simp: s(1))
qed

text \<open>C20.  Without the log the registry can be lost while the packets are kept.  With its default
  options the store writes no log, and it opens the database without \<open>atomic_flush\<close>; so on every
  database that keeps the laws, a new store killed after an accepted write may come back with the packet
  but without its stream: a query still finds the packet, the stream is not listed, and the global
  sequence number starts again from zero, so that numbers already stored will be given again.\<close>

theorem crash_without_log_splits_registry:
  assumes "rocks_flushing R contents survives E flushed_together"
    and "setDatabaseDirectory path RocksDatabaseOptions_init = Inr options"
    and "RocksDatabase_construct E options disk = (Inr s0, disk')" "rd_mInitialized s0"
    and "contents (database s0) = (\<lambda>c k. None)" "survives (database s0) (\<lambda>c k. None)"
    and "write_packets R ser [(t, p)] s0 = (Inr [], s)" "keyable (stream_identifier p)"
  shows "let w = unlisted (stream_key (stream_identifier p) @ be64 (sequence_number p)) (packet_value ser t p) in
     survives (database s) w \<and> \<not> store_wf w \<and>
     (\<forall>s'. rd_mInitialized s' \<and> contents (database s') = w \<longrightarrow>
        query R [(stream_identifier p, 0)] s' =
          Inr [\<lparr>qr_packet = ser p, qr_receivedAt = t, qr_sequenceNumber = sequence_number p\<rparr>] \<and>
        queryAvailableStreams R s' = Inr [] \<and> getGlobalSequenceNumber R s' = Inr 0)"
proof -
  have api: "rocks_api R contents"
    using assms(1) by (simp add: rocks_flushing_def rocks_durable_def)
  let ?k = "stream_key (stream_identifier p) @ be64 (sequence_number p)" and ?v = "packet_value ser t p"
  have "\<not> mEnableWriteAheadLog options"
    using assms(2) by (auto simp: setDatabaseDirectory_def RocksDatabaseOptions_init_def split: if_splits)
  with rocks_flushing.construct_flushing [OF assms(1,3,4)]
  have apart: "\<not> flushed_together (database s0)" and unlogged: "rd_mDisableWriteAheadLog s0" by auto
  obtain b d where w: "rdb_Write R (database s0) (rd_mDisableWriteAheadLog s0) b = (True, d)"
    "database s = d" "contents d PacketsCF = [?k \<mapsto> ?v]"
    by (rule rocks_api.write_packets_first [OF api assms(5,8,7)])
  from rocks_flushing.Flush_alone [OF assms(1) apart w(1) [unfolded unlogged[THEN eqTrueI]] assms(6), of PacketsCF]
  have survives: "survives (database s) (unlisted ?k ?v)" unfolding w(2,3) .
  note answers = rocks_api.unlisted_answers [OF api _ assms(8)]
  have "\<not> store_wf (unlisted ?k ?v)"
    using packets_wfD(3) [of "unlisted ?k ?v" ?k ?v] by auto
  with survives answers show ?thesis unfolding Let_def by blast
qed

text \<open>The database that a crash left with the packet only.\<close>

definition only_packets :: disk_db where
  "only_packets = disk_empty\<lparr>dk_memory := mem_empty\<lparr>mem_entries := (\<lambda>_. [])
     (PacketsCF := [(stream_key demo_id @ be64 3, packet_value demo_ser 100 (demo_packet 3))])\<rparr>\<rparr>"

theorem crash_without_log_splits_registry_witness:
  "\<exists>s w. write_packets disk_rocks demo_ser [(100, demo_packet 3)] (disk_handle disk_empty) = (Inr [], s) \<and>
     disk_survives (database s) w \<and> w = disk_contents only_packets \<and> \<not> store_wf w \<and>
     query disk_rocks [(demo_id, 0)] (disk_handle only_packets) =
       Inr [\<lparr>qr_packet = demo_ser (demo_packet 3), qr_receivedAt = 100, qr_sequenceNumber = 3\<rparr>] \<and>
     queryAvailableStreams disk_rocks (disk_handle only_packets) = Inr [] \<and>
     getGlobalSequenceNumber disk_rocks (disk_handle only_packets) = Inr 0"
proof -
  obtain s where s: "write_packets disk_rocks demo_ser [(100, demo_packet 3)] (disk_handle disk_empty) = (Inr [], s)"
    by (rule disk_write_demo)
  have only: "disk_contents only_packets =
      unlisted (stream_key demo_id @ be64 3) (packet_value demo_ser 100 (demo_packet 3))"
    by (auto simp: disk_contents_def only_packets_def mem_contents_def mem_empty_def)
  have "setDatabaseDirectory ''db'' RocksDatabaseOptions_init =
      Inr (RocksDatabaseOptions_init\<lparr>mDatabaseDirectory := ''db''\<rparr>)"
    by (simp add: setDatabaseDirectory_def)
  from crash_without_log_splits_registry [OF disk.rocks_flushing_axioms this disk_construct _ _ _ s]
  have split: "disk_survives (database s) (disk_contents only_packets)" "\<not> store_wf (disk_contents only_packets)"
    "\<And>s'. rd_mInitialized s' \<Longrightarrow> disk_contents (database s') = disk_contents only_packets \<Longrightarrow>
        query disk_rocks [(demo_id, 0)] s' =
          Inr [\<lparr>qr_packet = demo_ser (demo_packet 3), qr_receivedAt = 100, qr_sequenceNumber = 3\<rparr>] \<and>
        queryAvailableStreams disk_rocks s' = Inr [] \<and> getGlobalSequenceNumber disk_rocks s' = Inr 0"
    by (simp_all add: only Let_def)
  from split(3) [of "disk_handle only_packets"] split(1,2) s show ?thesis by simp
qed

end
