(* ===== verification/Option_Handles.thy ===== *)
theory Option_Handles
  imports Options
begin

text \<open>
  The option objects as they are in memory.  Each class keeps its members in an implementation object
  on the heap behind a \<open>std::unique_ptr\<close>, and its constructors, assignments and destructor handle that
  pointer.  They are the same text in the five classes.  Theory \<open>Options\<close> treats an object as the
  record of its members; here the pointer level is shown to implement that: no program that uses no
  moved-from object and no dead one dereferences a null or dangling pointer, shares an
  implementation between two objects, or leaks one.
\<close>

section \<open>Memory\<close>

text \<open>The live objects by name, each with its pointer (\<open>None\<close> is null), the implementation objects by
  address, and the next free address.\<close>

record 'a memory =
  objects :: "string \<Rightarrow> nat option option"
  impls :: "nat \<Rightarrow> 'a option"
  free_address :: nat

definition no_memory :: "'a memory" where
  "no_memory = \<lparr>objects = Map.empty, impls = Map.empty, free_address = 0\<rparr>"

text \<open>\<open>make_unique\<close>, and the destruction of a \<open>unique_ptr\<close>.  Deleting what is not allocated is undefined.\<close>

definition make_unique :: "'a \<Rightarrow> 'a memory \<Rightarrow> nat \<times> 'a memory" where
  "make_unique v m = (free_address m, m\<lparr>impls := (impls m)(free_address m \<mapsto> v),
                                        free_address := free_address m + 1\<rparr>)"

definition delete :: "nat option \<Rightarrow> 'a memory \<Rightarrow> 'a memory option" where
  "delete p m = (case p of
     None \<Rightarrow> Some m
   | Some a \<Rightarrow> (case impls m a of None \<Rightarrow> None | Some v \<Rightarrow> Some (m\<lparr>impls := (impls m)(a := None)\<rparr>)))"

definition dereference :: "nat option \<Rightarrow> 'a memory \<Rightarrow> 'a option" where
  "dereference p m = (case p of None \<Rightarrow> None | Some a \<Rightarrow> impls m a)"

text \<open>Assigning a new pointer to the member \<open>pImpl\<close> of an object deletes what the old one owned.\<close>

definition set_pImpl :: "string \<Rightarrow> nat option \<Rightarrow> 'a memory \<Rightarrow> 'a memory option" where
  "set_pImpl x p m = (case objects m x of
     None \<Rightarrow> None
   | Some old \<Rightarrow> delete old (m\<lparr>objects := (objects m)(x \<mapsto> p)\<rparr>))"

section \<open>The special members\<close>

text \<open>\<open>None\<close> is undefined behaviour: the use of a dead object or of a null or dangling pointer.\<close>

definition constructor :: "'a \<Rightarrow> string \<Rightarrow> 'a memory \<Rightarrow> 'a memory option" where
  "constructor init x m = (if objects m x \<noteq> None then None
     else case make_unique init m of (a, m) \<Rightarrow> Some (m\<lparr>objects := (objects m)(x \<mapsto> Some a)\<rparr>))"

definition copy_assign :: "string \<Rightarrow> string \<Rightarrow> 'a memory \<Rightarrow> 'a memory option" where
  "copy_assign x y m = (case (objects m x, objects m y) of
     (Some p, Some q) \<Rightarrow>
       if y = x then Some m
       else (case dereference q m of
               None \<Rightarrow> None
             | Some v \<Rightarrow> (case make_unique v m of (a, m) \<Rightarrow> set_pImpl x (Some a) m))
   | _ \<Rightarrow> None)"

definition move_assign :: "string \<Rightarrow> string \<Rightarrow> 'a memory \<Rightarrow> 'a memory option" where
  "move_assign x y m = (case (objects m x, objects m y) of
     (Some p, Some q) \<Rightarrow>
       if x = y then Some m
       else set_pImpl x q (m\<lparr>objects := (objects m)(y \<mapsto> None)\<rparr>)
   | _ \<Rightarrow> None)"

text \<open>The copy and move constructors assign to an object whose pointer is still null.\<close>

definition with_null :: "string \<Rightarrow> 'a memory \<Rightarrow> 'a memory option" where
  "with_null x m = (if objects m x \<noteq> None then None else Some (m\<lparr>objects := (objects m)(x \<mapsto> None)\<rparr>))"

definition copy_constructor :: "string \<Rightarrow> string \<Rightarrow> 'a memory \<Rightarrow> 'a memory option" where
  "copy_constructor x y m = (if x = y then None else Option.bind (with_null x m) (copy_assign x y))"

definition move_constructor :: "string \<Rightarrow> string \<Rightarrow> 'a memory \<Rightarrow> 'a memory option" where
  "move_constructor x y m = (if x = y then None else Option.bind (with_null x m) (move_assign x y))"

definition destructor :: "string \<Rightarrow> 'a memory \<Rightarrow> 'a memory option" where
  "destructor x m = (case objects m x of
     None \<Rightarrow> None
   | Some p \<Rightarrow> delete p (m\<lparr>objects := (objects m)(x := None)\<rparr>))"

text \<open>Every other member dereferences the pointer; a setter that throws keeps the implementation.\<close>

definition call_member :: "('a \<Rightarrow> 'a) \<Rightarrow> string \<Rightarrow> 'a memory \<Rightarrow> 'a memory option" where
  "call_member f x m = (case objects m x of
     Some (Some a) \<Rightarrow> (case impls m a of
        None \<Rightarrow> None | Some v \<Rightarrow> Some (m\<lparr>impls := (impls m)(a \<mapsto> f v)\<rparr>))
   | _ \<Rightarrow> None)"

section \<open>Programs\<close>

datatype 'a statement =
    Construct string
  | CopyConstruct string string
  | MoveConstruct string string
  | CopyAssign string string
  | MoveAssign string string
  | Member "'a \<Rightarrow> 'a" string
  | Destroy string

fun memory_step :: "'a \<Rightarrow> 'a statement \<Rightarrow> 'a memory \<Rightarrow> 'a memory option" where
  "memory_step init (Construct x) m = constructor init x m"
| "memory_step init (CopyConstruct x y) m = copy_constructor x y m"
| "memory_step init (MoveConstruct x y) m = move_constructor x y m"
| "memory_step init (CopyAssign x y) m = copy_assign x y m"
| "memory_step init (MoveAssign x y) m = move_assign x y m"
| "memory_step init (Member f x) m = call_member f x m"
| "memory_step init (Destroy x) m = destructor x m"

fun memory_run ::
  "('a statement \<Rightarrow> 'a memory \<Rightarrow> 'a memory option) \<Rightarrow> 'a statement list \<Rightarrow> 'a memory \<Rightarrow> 'a memory option" where
  "memory_run step [] m = Some m"
| "memory_run step (s # ss) m = Option.bind (step s m) (memory_run step ss)"

text \<open>The special members of each class.\<close>

definition GRPCServerOptions_members ::
  "GRPCServerOptions statement \<Rightarrow> GRPCServerOptions memory \<Rightarrow> GRPCServerOptions memory option" where
  "GRPCServerOptions_members = memory_step GRPCServerOptions_init"

definition PublishServiceOptions_members ::
  "PublishServiceOptions statement \<Rightarrow> PublishServiceOptions memory \<Rightarrow> PublishServiceOptions memory option" where
  "PublishServiceOptions_members = memory_step PublishServiceOptions_init"

definition SubscribeServiceOptions_members ::
  "SubscribeServiceOptions statement \<Rightarrow> SubscribeServiceOptions memory \<Rightarrow> SubscribeServiceOptions memory option" where
  "SubscribeServiceOptions_members = memory_step SubscribeServiceOptions_init"

definition RocksDatabaseOptions_members ::
  "RocksDatabaseOptions statement \<Rightarrow> RocksDatabaseOptions memory \<Rightarrow> RocksDatabaseOptions memory option" where
  "RocksDatabaseOptions_members = memory_step RocksDatabaseOptions_init"

definition BrokerOptions_members ::
  "BrokerOptions statement \<Rightarrow> BrokerOptions memory \<Rightarrow> BrokerOptions memory option" where
  "BrokerOptions_members = memory_step BrokerOptions_init"

lemmas class_members = GRPCServerOptions_members_def PublishServiceOptions_members_def
  SubscribeServiceOptions_members_def RocksDatabaseOptions_members_def BrokerOptions_members_def

section \<open>Objects as values\<close>

text \<open>An object is a value, or moved-from (\<open>None\<close>).\<close>

type_synonym 'a store_values = "string \<Rightarrow> 'a option option"

fun value_step :: "'a \<Rightarrow> 'a statement \<Rightarrow> 'a store_values \<Rightarrow> 'a store_values option" where
  "value_step init (Construct x) w = (if w x = None then Some (w(x \<mapsto> Some init)) else None)"
| "value_step init (CopyConstruct x y) w = (case (w x, w y) of
     (None, Some (Some v)) \<Rightarrow> Some (w(x \<mapsto> Some v)) | _ \<Rightarrow> None)"
| "value_step init (MoveConstruct x y) w = (case (w x, w y) of
     (None, Some v) \<Rightarrow> Some (w(x \<mapsto> v, y \<mapsto> None)) | _ \<Rightarrow> None)"
| "value_step init (CopyAssign x y) w = (case (w x, w y) of
     (Some u, Some v) \<Rightarrow> if x = y then Some w else if v = None then None else Some (w(x \<mapsto> v))
   | _ \<Rightarrow> None)"
| "value_step init (MoveAssign x y) w = (case (w x, w y) of
     (Some u, Some v) \<Rightarrow> if x = y then Some w else Some (w(x \<mapsto> v, y \<mapsto> None))
   | _ \<Rightarrow> None)"
| "value_step init (Member f x) w = (case w x of Some (Some v) \<Rightarrow> Some (w(x \<mapsto> Some (f v))) | _ \<Rightarrow> None)"
| "value_step init (Destroy x) w = (if w x = None then None else Some (w(x := None)))"

fun value_run :: "'a \<Rightarrow> 'a statement list \<Rightarrow> 'a store_values \<Rightarrow> 'a store_values option" where
  "value_run init [] w = Some w"
| "value_run init (s # ss) w = Option.bind (value_step init s w) (value_run init ss)"

definition values_of :: "'a memory \<Rightarrow> 'a store_values" where
  "values_of m = (\<lambda>x. map_option (\<lambda>p. dereference p m) (objects m x))"

section \<open>Ownership\<close>

text \<open>Every implementation object is owned by exactly one live object and every non-null pointer
  points to one.\<close>

definition owned :: "'a memory \<Rightarrow> bool" where
  "owned m \<longleftrightarrow>
     (\<forall>x a. objects m x = Some (Some a) \<longrightarrow> impls m a \<noteq> None) \<and>
     (\<forall>x y a. objects m x = Some (Some a) \<longrightarrow> objects m y = Some (Some a) \<longrightarrow> x = y) \<and>
     (\<forall>a. impls m a \<noteq> None \<longrightarrow> (\<exists>x. objects m x = Some (Some a))) \<and>
     (\<forall>a. impls m a \<noteq> None \<longrightarrow> a < free_address m)"

lemma owned_no_memory: "owned no_memory" "values_of no_memory = Map.empty"
  by (simp_all add: owned_def no_memory_def values_of_def fun_eq_iff)

lemma ownedD:
  assumes "owned m"
  shows "objects m x = Some (Some a) \<Longrightarrow> \<exists>v. impls m a = Some v"
    "objects m x = Some (Some a) \<Longrightarrow> objects m y = Some (Some a) \<Longrightarrow> x = y"
    "impls m a = Some v \<Longrightarrow> \<exists>x. objects m x = Some (Some a)"
    "impls m (free_address m) = None" "objects m x \<noteq> Some (Some (free_address m))"
  using assms unfolding owned_def by (metis less_irrefl not_None_eq)+

definition simulates :: "'a memory option \<Rightarrow> 'a store_values option \<Rightarrow> bool" where
  "simulates m w \<longleftrightarrow> (case m of None \<Rightarrow> w = None | Some m \<Rightarrow> w = Some (values_of m) \<and> owned m)"

lemma simulates_simps [simp]:
  "simulates None w \<longleftrightarrow> w = None" "simulates (Some m) w \<longleftrightarrow> w = Some (values_of m) \<and> owned m"
  by (simp_all add: simulates_def)

lemma values_of_cases [simp]:
  "objects m x = None \<Longrightarrow> values_of m x = None"
  "objects m x = Some None \<Longrightarrow> values_of m x = Some None"
  "objects m x = Some (Some a) \<Longrightarrow> values_of m x = Some (impls m a)"
  by (simp_all add: values_of_def dereference_def)

lemma values_of_eq_None [simp]: "values_of m x = None \<longleftrightarrow> objects m x = None"
  by (simp add: values_of_def)

lemma values_ofI:
  assumes "\<And>y. objects m y = None \<Longrightarrow> w y = None" "\<And>y. objects m y = Some None \<Longrightarrow> w y = Some None"
    and "\<And>y a. objects m y = Some (Some a) \<Longrightarrow> w y = Some (impls m a)"
  shows "w = values_of m"
proof
  fix y show "w y = values_of m y"
    using assms [of y] by (cases "objects m y"; cases "the (objects m y)") auto
qed

lemma ownedI:
  assumes "\<And>x a. objects m x = Some (Some a) \<Longrightarrow> impls m a \<noteq> None"
    and "\<And>x y a. objects m x = Some (Some a) \<Longrightarrow> objects m y = Some (Some a) \<Longrightarrow> x = y"
    and "\<And>a v. impls m a = Some v \<Longrightarrow> \<exists>x. objects m x = Some (Some a)"
    and "\<And>a v. impls m a = Some v \<Longrightarrow> a < free_address m"
  shows "owned m"
  using assms unfolding owned_def by blast

text \<open>Giving an object a new implementation, and taking an object's implementation away.\<close>

definition emplaced :: "string \<Rightarrow> 'a \<Rightarrow> 'a memory \<Rightarrow> 'a memory" where
  "emplaced x v m = m\<lparr>objects := (objects m)(x \<mapsto> Some (free_address m)),
     impls := (impls m)(free_address m \<mapsto> v), free_address := free_address m + 1\<rparr>"

lemma owned_emplaced:
  assumes "owned m" "objects m x = None \<or> objects m x = Some None"
  shows "owned (emplaced x v m)" "values_of (emplaced x v m) = (values_of m)(x \<mapsto> Some v)"
proof -
  note o = ownedD [OF assms(1)]
  have less: "a < free_address m" if "impls m a = Some u" for a u
    using assms(1) that unfolding owned_def by blast
  show "owned (emplaced x v m)"
  proof (rule ownedI)
    show "\<exists>y. objects (emplaced x v m) y = Some (Some a)" if "impls (emplaced x v m) a = Some u" for a u
    proof (cases "a = free_address m")
      case False
      with that o(3) obtain y where "objects m y = Some (Some a)" by (auto simp: emplaced_def)
      with assms(2) have "y \<noteq> x" "objects m y = Some (Some a)" by auto
      then show ?thesis by (auto simp: emplaced_def)
    qed (auto simp: emplaced_def)
  qed (use o less in \<open>auto simp: emplaced_def less_Suc_eq split: if_splits\<close>)
  show "values_of (emplaced x v m) = (values_of m)(x \<mapsto> Some v)"
    by (rule sym, rule values_ofI) (use o(5) in \<open>auto simp: emplaced_def split: if_splits\<close>)
qed

definition nulled :: "string \<Rightarrow> nat option option \<Rightarrow> 'a memory \<Rightarrow> 'a memory" where
  "nulled x p m = m\<lparr>objects := (objects m)(x := p),
     impls := (case objects m x of Some (Some a) \<Rightarrow> (impls m)(a := None) | _ \<Rightarrow> impls m)\<rparr>"

lemma owned_nulled:
  assumes "owned m" "p = None \<or> p = Some None"
  shows "owned (nulled x p m)" "values_of (nulled x p m) = (values_of m)(x := map_option (\<lambda>_. None) p)"
proof -
  note o = ownedD [OF assms(1)]
  have less: "a < free_address m" if "impls m a = Some u" for a u
    using assms(1) that unfolding owned_def by blast
  show "owned (nulled x p m)"
  proof (rule ownedI)
    show "\<exists>y. objects (nulled x p m) y = Some (Some a)" if "impls (nulled x p m) a = Some u" for a u
    proof -
      from that have "impls m a = Some u" "objects m x \<noteq> Some (Some a)"
        by (auto simp: nulled_def split: option.splits if_splits)
      with o(3) obtain y where "objects m y = Some (Some a)" "y \<noteq> x" by blast
      then show ?thesis by (auto simp: nulled_def)
    qed
    show "impls (nulled x p m) a \<noteq> None" if "objects (nulled x p m) y = Some (Some a)" for y a
    proof -
      from that assms(2) have "y \<noteq> x" "objects m y = Some (Some a)" by (auto simp: nulled_def split: if_splits)
      with o(1) [OF this(2)] o(2) show ?thesis by (auto simp: nulled_def split: option.split)
    qed
  qed (use assms(2) o less in \<open>auto simp: nulled_def split: if_splits option.splits\<close>)
  show "values_of (nulled x p m) = (values_of m)(x := map_option (\<lambda>_. None) p)"
  proof (rule sym, rule values_ofI)
    fix y a assume "objects (nulled x p m) y = Some (Some a)"
    with assms(2) have "y \<noteq> x" "objects m y = Some (Some a)" by (auto simp: nulled_def split: if_splits)
    with o(2) show "((values_of m)(x := map_option (\<lambda>_. None) p)) y = Some (impls (nulled x p m) a)"
      by (auto simp: nulled_def split: option.split)
  qed (use assms(2) in \<open>auto simp: nulled_def split: if_splits\<close>)
qed

text \<open>Handing an implementation over to an object that has none.\<close>

definition handed :: "string \<Rightarrow> string \<Rightarrow> 'a memory \<Rightarrow> 'a memory" where
  "handed x y m = m\<lparr>objects := (objects m)(x := objects m y, y \<mapsto> None)\<rparr>"

lemma owned_handed:
  assumes "owned m" "objects m x = Some None" "objects m y = Some q" "x \<noteq> y"
  shows "owned (handed x y m)" "values_of (handed x y m) = (values_of m)(x := values_of m y, y \<mapsto> None)"
proof -
  note o = ownedD [OF assms(1)]
  have less: "a < free_address m" if "impls m a = Some u" for a u
    using assms(1) that unfolding owned_def by blast
  show "owned (handed x y m)"
  proof (rule ownedI)
    show "\<exists>z. objects (handed x y m) z = Some (Some a)" if "impls (handed x y m) a = Some u" for a u
    proof -
      from that o(3) obtain z where z: "objects m z = Some (Some a)" by (auto simp: handed_def)
      show ?thesis
      proof (cases "z = y")
        case True
        with z assms(4) have "objects (handed x y m) x = Some (Some a)" by (simp add: handed_def)
        then show ?thesis by blast
      next
        case False
        with z assms(2) have "objects (handed x y m) z = Some (Some a)" by (auto simp: handed_def)
        then show ?thesis by blast
      qed
    qed
    show "impls (handed x y m) a \<noteq> None" if "objects (handed x y m) z = Some (Some a)" for z a
    proof -
      from that have "objects m z = Some (Some a) \<or> objects m y = Some (Some a)"
        by (simp add: handed_def split: if_splits)
      with o(1) show ?thesis by (auto simp: handed_def)
    qed
    show "z = z'" if "objects (handed x y m) z = Some (Some a)" "objects (handed x y m) z' = Some (Some a)"
      for z z' a
    proof -
      have "objects m (if z = x then y else z) = Some (Some a) \<and> z \<noteq> y"
        "objects m (if z' = x then y else z') = Some (Some a) \<and> z' \<noteq> y"
        using that by (simp_all add: handed_def split: if_splits)
      with o(2) have "(if z = x then y else z) = (if z' = x then y else z')" "z \<noteq> y" "z' \<noteq> y"
        by blast+
      then show ?thesis by (simp split: if_splits)
    qed
  qed (use less in \<open>simp add: handed_def\<close>)
  show "values_of (handed x y m) = (values_of m)(x := values_of m y, y \<mapsto> None)"
    by (rule sym, rule values_ofI) (use assms(3,4) in \<open>auto simp: handed_def split: if_splits\<close>)
qed

section \<open>Each member implements its value\<close>

lemma constructor_eq: "objects m x = None \<Longrightarrow> constructor init x m = Some (emplaced x init m)"
  by (simp add: constructor_def make_unique_def emplaced_def)

lemma copy_assign_eq:
  assumes "owned m" "objects m x = Some p" "objects m y = Some (Some b)" "x \<noteq> y" "impls m b = Some v"
  shows "copy_assign x y m = Some (emplaced x v (nulled x (Some None) m))"
  using assms(2-5) ownedD(1,5) [OF assms(1), of x]
  by (auto simp: copy_assign_def dereference_def make_unique_def set_pImpl_def delete_def
      emplaced_def nulled_def fun_eq_iff split: option.split intro!: memory.equality)

lemma move_assign_eq:
  assumes "owned m" "objects m x = Some p" "objects m y = Some q" "x \<noteq> y"
  shows "move_assign x y m = Some (handed x y (nulled x (Some None) m))"
  using assms(2-4) ownedD(1) [OF assms(1), of x]
  by (auto simp: move_assign_def set_pImpl_def delete_def handed_def nulled_def fun_upd_twist
      split: option.split intro!: memory.equality)

lemma with_null_eq:
  "objects m x = None \<Longrightarrow> with_null x m = Some (nulled x (Some None) m)"
  by (simp add: with_null_def nulled_def)

lemma simulates_constructor:
  assumes "owned m"
  shows "simulates (constructor init x m) (value_step init (Construct x) (values_of m))"
  using owned_emplaced [OF assms, of x init] constructor_eq [of m x init]
  by (cases "objects m x") (auto simp: constructor_def)

lemma simulates_destructor:
  assumes "owned m"
  shows "simulates (destructor x m) (value_step init (Destroy x) (values_of m))"
proof (cases "objects m x")
  case (Some p)
  then have "destructor x m = Some (nulled x None m)"
    using ownedD(1) [OF assms, of x]
    by (auto simp: destructor_def delete_def nulled_def split: option.split)
  with owned_nulled [OF assms, of None x] Some show ?thesis by simp
qed (simp add: destructor_def)

lemma simulates_member:
  assumes "owned m"
  shows "simulates (call_member f x m) (value_step init (Member f x) (values_of m))"
proof (cases "\<exists>a. objects m x = Some (Some a)")
  case True
  then obtain a v where a: "objects m x = Some (Some a)" "impls m a = Some v"
    using ownedD(1) [OF assms] by blast
  let ?m = "m\<lparr>impls := (impls m)(a \<mapsto> f v)\<rparr>"
  have "(values_of m)(x \<mapsto> Some (f v)) = values_of ?m"
  proof (rule values_ofI)
    fix y c assume "objects ?m y = Some (Some c)"
    then have y: "objects m y = Some (Some c)" by simp
    show "((values_of m)(x \<mapsto> Some (f v))) y = Some (impls ?m c)"
    proof (cases "y = x")
      case False
      then have "c \<noteq> a" using ownedD(2) [OF assms a(1), of y] y by auto
      with False y show ?thesis by simp
    qed (use y a in simp)
  qed (use a in auto)
  moreover have "owned ?m"
  proof -
    have same: "objects ?m = objects m" "free_address ?m = free_address m"
      "impls ?m c = None \<longleftrightarrow> impls m c = None" for c using a by simp_all
    show ?thesis using assms unfolding owned_def same .
  qed
  ultimately show ?thesis using a by (simp add: call_member_def)
next
  case False
  then show ?thesis
    by (cases "objects m x"; cases "the (objects m x)") (auto simp: call_member_def)
qed

lemma simulates_copy_assign:
  assumes "owned m"
  shows "simulates (copy_assign x y m) (value_step init (CopyAssign x y) (values_of m))"
proof (cases "objects m x = None \<or> objects m y = None \<or> x = y")
  case True
  then show ?thesis
    using assms by (auto simp: copy_assign_def split: option.split)
next
  case False
  then obtain p q where pq: "objects m x = Some p" "objects m y = Some q" "x \<noteq> y" by auto
  show ?thesis
  proof (cases q)
    case None
    with pq show ?thesis by (cases p) (simp_all add: copy_assign_def dereference_def)
  next
    case (Some b)
    with pq ownedD(1) [OF assms] obtain v where v: "impls m b = Some v" by blast
    let ?n = "nulled x (Some None) m"
    note n = owned_nulled [OF assms, of "Some None" x]
    have "objects ?n x = Some None" by (simp add: nulled_def)
    with owned_emplaced [OF n(1), of x v] copy_assign_eq [OF assms pq(1) _ pq(3) v] pq n(2) v Some
    show ?thesis by (cases p) simp_all
  qed
qed

lemma simulates_move_assign:
  assumes "owned m"
  shows "simulates (move_assign x y m) (value_step init (MoveAssign x y) (values_of m))"
proof (cases "objects m x = None \<or> objects m y = None \<or> x = y")
  case True
  then show ?thesis
    using assms by (auto simp: move_assign_def split: option.split)
next
  case False
  then obtain p q where pq: "objects m x = Some p" "objects m y = Some q" "x \<noteq> y" by auto
  let ?n = "nulled x (Some None) m"
  note n = owned_nulled [OF assms, of "Some None" x]
  have "objects ?n x = Some None" "objects ?n y = Some q" using pq by (simp_all add: nulled_def)
  with owned_handed [OF n(1), of x y q] move_assign_eq [OF assms pq] pq n(2)
  show ?thesis by (cases p; cases q) simp_all
qed

lemma simulates_step:
  assumes "owned m"
  shows "simulates (memory_step init s m) (value_step init s (values_of m))"
proof (cases s)
  case (CopyConstruct x y)
  show ?thesis
  proof (cases "x = y \<or> objects m x \<noteq> None")
    case True
    with CopyConstruct show ?thesis
      by (auto simp: copy_constructor_def with_null_def split: option.split)
  next
    case False
    let ?n = "nulled x (Some None) m"
    note n = owned_nulled [OF assms, of "Some None" x]
    have "copy_constructor x y m = copy_assign x y ?n"
      using False by (simp add: copy_constructor_def with_null_eq)
    with simulates_copy_assign [OF n(1), of x y init] False n(2) CopyConstruct show ?thesis
      by (auto split: option.splits)
  qed
next
  case (MoveConstruct x y)
  show ?thesis
  proof (cases "x = y \<or> objects m x \<noteq> None")
    case True
    with MoveConstruct show ?thesis
      by (auto simp: move_constructor_def with_null_def split: option.split)
  next
    case False
    let ?n = "nulled x (Some None) m"
    note n = owned_nulled [OF assms, of "Some None" x]
    have "move_constructor x y m = move_assign x y ?n"
      using False by (simp add: move_constructor_def with_null_eq)
    with simulates_move_assign [OF n(1), of x y init] False n(2) MoveConstruct show ?thesis
      by (auto split: option.splits)
  qed
qed (simp_all only: memory_step.simps simulates_constructor simulates_destructor simulates_member
    simulates_copy_assign simulates_move_assign assms)

lemma simulates_run:
  "owned m \<Longrightarrow> simulates (memory_run (memory_step init) ss m) (value_run init ss (values_of m))"
proof (induction ss arbitrary: m)
  case (Cons s ss)
  from simulates_step [OF Cons.prems, of init s] Cons.IH show ?case
    by (cases "memory_step init s m") (auto simp del: simulates_simps(2) simp: simulates_def)
qed simp

section \<open>Properties\<close>

text \<open>C26.  Option objects behave as values and memory is safe.  A sequence of constructions, copies,
  moves, assignments (to oneself too), member calls and destructions of objects of a class is free
  of undefined behaviour exactly when it uses no dead object and neither copies nor calls a
  moved-from one; then the objects have the values the sequence gives them as plain values, every
  pointer points to an implementation, and every implementation has exactly one owner, so that
  nothing is shared or leaked.\<close>

theorem option_objects_are_values:
  "case memory_run (memory_step init) ss no_memory of
     None \<Rightarrow> value_run init ss Map.empty = None
   | Some m \<Rightarrow> value_run init ss Map.empty = Some (values_of m) \<and>
       (\<forall>x a. objects m x = Some (Some a) \<longrightarrow> impls m a \<noteq> None) \<and>
       (\<forall>a. impls m a \<noteq> None \<longrightarrow> (\<exists>!x. objects m x = Some (Some a)))"
proof -
  have "simulates (memory_run (memory_step init) ss no_memory) (value_run init ss Map.empty)"
    using simulates_run [OF owned_no_memory(1), of init ss] by (simp add: owned_no_memory(2))
  then show ?thesis unfolding simulates_def owned_def by (fastforce split: option.splits)
qed

theorem option_objects_are_values_witness:
  "\<exists>m a. memory_run BrokerOptions_members
     [Construct ''a'', CopyConstruct ''b'' ''a'', MoveAssign ''a'' ''b'', Destroy ''b''] no_memory = Some m \<and>
     objects m ''a'' = Some (Some a) \<and> impls m a = Some BrokerOptions_init"
proof -
  let ?ss = "[Construct ''a'', CopyConstruct ''b'' ''a'', MoveAssign ''a'' ''b'', Destroy ''b'']"
  have "value_run BrokerOptions_init ?ss Map.empty = Some [''a'' \<mapsto> Some BrokerOptions_init]"
    by (simp add: fun_eq_iff)
  with option_objects_are_values [of BrokerOptions_init ?ss] obtain m where
    m: "memory_run BrokerOptions_members ?ss no_memory = Some m"
      "values_of m = [''a'' \<mapsto> Some BrokerOptions_init]"
    by (auto simp: class_members split: option.splits)
  then have "values_of m ''a'' = Some (Some BrokerOptions_init)" by simp
  with m(1) show ?thesis by (auto simp: values_of_def dereference_def split: option.splits)
qed

end
