(* ===== verification/Option_Wellformed.thy ===== *)
theory Option_Wellformed
  imports Option_Handles
begin

text \<open>
  The type of each option class: what its setters check holds of every object that a program builds
  with the members of the class, through copies, moves and assignments.
\<close>

section \<open>Well-formed options\<close>

text \<open>A setter as a member: when it throws, the implementation is unchanged.\<close>

definition kept :: "('a \<Rightarrow> 'a result) \<Rightarrow> 'a \<Rightarrow> 'a" where
  "kept f p = (case f p of Inl e \<Rightarrow> p | Inr p' \<Rightarrow> p')"

definition grpc_wf :: "GRPCServerOptions \<Rightarrow> bool" where
  "grpc_wf p \<longleftrightarrow> mHost p \<noteq> [] \<and> mPort p \<noteq> 0 \<and> mAccessToken p \<noteq> Some [] \<and>
     mServerCertificate p \<noteq> Some [] \<and> mServerKey p \<noteq> Some [] \<and> mClientCertificate p \<noteq> Some []"

definition publish_wf :: "PublishServiceOptions \<Rightarrow> bool" where
  "publish_wf p \<longleftrightarrow> grpc_wf (mGRPCOptions p) \<and> 1 \<le> mMaximumPublishers p \<and>
     (case mMaximumMessageSizeInBytes p of None \<Rightarrow> True | Some n \<Rightarrow> 1 \<le> n)"

definition subscribe_wf :: "SubscribeServiceOptions \<Rightarrow> bool" where
  "subscribe_wf p \<longleftrightarrow> grpc_wf (sub_mGRPCOptions p) \<and> 1 \<le> sub_mMaximumNumberOfSubscribers p"

definition rocks_options_wf :: "RocksDatabaseOptions \<Rightarrow> bool" where
  "rocks_options_wf p \<longleftrightarrow> 0 < mRetention p \<and> mWriteBufferSizeInBytes p \<noteq> 0 \<and>
     1 \<le> mMaximumNumberOfMemoryTables p"

definition broker_options_wf :: "BrokerOptions \<Rightarrow> bool" where
  "broker_options_wf p \<longleftrightarrow> publish_wf (mPublishServiceOptions p) \<and> 1 \<le> mRetentionDuration p \<and>
     0 \<le> mCompactionInterval p"

text \<open>The members that change an object of each class; an option object passed in is one that the same
  rules allow.\<close>

inductive grpc_member :: "(GRPCServerOptions \<Rightarrow> GRPCServerOptions) \<Rightarrow> bool" where
  "grpc_member (kept (setHost h))" | "grpc_member (kept (setPort n))"
| "grpc_member (kept (setAccessToken t))" | "grpc_member (kept (setServerCertificate t))"
| "grpc_member (kept (setServerKey t))" | "grpc_member (kept (setClientCertificate t))"
| "grpc_member enableReflection" | "grpc_member disableReflection"

inductive publish_member :: "(PublishServiceOptions \<Rightarrow> PublishServiceOptions) \<Rightarrow> bool" where
  "grpc_wf g \<Longrightarrow> publish_member (setGRPCOptions g)"
| "publish_member (kept (setMaximumNumberOfPublishers n))"
| "publish_member (kept (setMaximumMessageSizeInBytes n))"
| "publish_member (setMaximumConsecutiveInvalidMessages k)"

inductive subscribe_member :: "(SubscribeServiceOptions \<Rightarrow> SubscribeServiceOptions) \<Rightarrow> bool" where
  "grpc_wf g \<Longrightarrow> subscribe_member (sub_setGRPCOptions g)"
| "subscribe_member (kept (setMaximumNumberOfSubscribers n))"

inductive rocks_member :: "(RocksDatabaseOptions \<Rightarrow> RocksDatabaseOptions) \<Rightarrow> bool" where
  "rocks_member (kept (setDatabaseDirectory d))" | "rocks_member (kept (setRetention n))"
| "rocks_member (kept (setWriteBufferSizeInBytes w))"
| "rocks_member (kept (setMaximumNumberOfMemoryTables n))"
| "rocks_member enableOverWriteIfExists" | "rocks_member disableOverWriteIfExists"
| "rocks_member enableWriteAheadLog" | "rocks_member disableWriteAheadLog"

inductive broker_member :: "(BrokerOptions \<Rightarrow> BrokerOptions) \<Rightarrow> bool" where
  "publish_wf g \<Longrightarrow> broker_member (setPublishServiceOptions g)"
| "broker_member (kept (setRetentionDuration n))" | "broker_member (kept (setCompactionInterval n))"

definition keeps :: "('a \<Rightarrow> bool) \<Rightarrow> (('a \<Rightarrow> 'a) \<Rightarrow> bool) \<Rightarrow> bool" where
  "keeps P M \<longleftrightarrow> (\<forall>f v. M f \<longrightarrow> P v \<longrightarrow> P (f v))"

lemma grpc_member_wf: "keeps grpc_wf grpc_member"
  unfolding keeps_def by (intro allI impI, erule grpc_member.cases) (auto simp: kept_def grpc_wf_def setHost_def setPort_def
      setAccessToken_def setServerCertificate_def setServerKey_def setClientCertificate_def
      enableReflection_def disableReflection_def split: if_splits)

lemma publish_member_wf: "keeps publish_wf publish_member"
  unfolding keeps_def by (intro allI impI, erule publish_member.cases) (auto simp: kept_def publish_wf_def setGRPCOptions_def
      setMaximumNumberOfPublishers_def setMaximumMessageSizeInBytes_def
      setMaximumConsecutiveInvalidMessages_def split: if_splits)

lemma subscribe_member_wf: "keeps subscribe_wf subscribe_member"
  unfolding keeps_def by (intro allI impI, erule subscribe_member.cases) (auto simp: kept_def subscribe_wf_def sub_setGRPCOptions_def
      setMaximumNumberOfSubscribers_def split: if_splits)

lemma rocks_member_wf: "keeps rocks_options_wf rocks_member"
  unfolding keeps_def by (intro allI impI, erule rocks_member.cases) (auto simp: kept_def rocks_options_wf_def setDatabaseDirectory_def
      setRetention_def setWriteBufferSizeInBytes_def setMaximumNumberOfMemoryTables_def
      enableOverWriteIfExists_def disableOverWriteIfExists_def enableWriteAheadLog_def
      disableWriteAheadLog_def split: if_splits)

lemma broker_member_wf: "keeps broker_options_wf broker_member"
  unfolding keeps_def by (intro allI impI, erule broker_member.cases) (auto simp: kept_def broker_options_wf_def
      setPublishServiceOptions_def setRetentionDuration_def setCompactionInterval_def split: if_splits)

lemma initial_wf:
  "grpc_wf GRPCServerOptions_init" "publish_wf PublishServiceOptions_init"
  "subscribe_wf SubscribeServiceOptions_init" "rocks_options_wf RocksDatabaseOptions_init"
  "broker_options_wf BrokerOptions_init"
  by (simp_all add: grpc_wf_def publish_wf_def subscribe_wf_def rocks_options_wf_def
      broker_options_wf_def GRPCServerOptions_init_def PublishServiceOptions_init_def
      SubscribeServiceOptions_init_def RocksDatabaseOptions_init_def BrokerOptions_init_def)

definition calls_only :: "(('a \<Rightarrow> 'a) \<Rightarrow> bool) \<Rightarrow> 'a statement list \<Rightarrow> bool" where
  "calls_only M ss \<longleftrightarrow> (\<forall>f x. Member f x \<in> set ss \<longrightarrow> M f)"

text \<open>What holds of the initial members and is kept by the called ones holds of every
  implementation, because it holds of every value.\<close>

lemma value_step_keeps:
  assumes "value_step init s w = Some w'" "P init"
    and "\<And>x v. w x = Some (Some v) \<Longrightarrow> P v" "\<And>f x v. s = Member f x \<Longrightarrow> P v \<Longrightarrow> P (f v)"
  shows "w' x = Some (Some v) \<Longrightarrow> P v"
  using assms by (cases s) (auto split: option.splits if_splits)

lemma value_run_keeps:
  assumes "value_run init ss w = Some w'" "P init" "\<And>x v. w x = Some (Some v) \<Longrightarrow> P v"
    and "\<And>f x v. Member f x \<in> set ss \<Longrightarrow> P v \<Longrightarrow> P (f v)"
  shows "w' x = Some (Some v) \<Longrightarrow> P v"
  using assms
proof (induction ss arbitrary: w)
  case (Cons s ss)
  from Cons.prems(2) obtain w1 where w1: "value_step init s w = Some w1" "value_run init ss w1 = Some w'"
    by (auto simp: bind_eq_Some_conv)
  have "P v" if "w1 x = Some (Some v)" for x v
    by (rule value_step_keeps [where P = P, OF w1(1) Cons.prems(3,4) _ that]) (use Cons.prems(5) in auto)
  with Cons.IH [OF Cons.prems(1) w1(2) Cons.prems(3)] Cons.prems(5) show ?case by auto
qed auto

lemma impls_keep:
  assumes "P init" "keeps P M" "calls_only M ss"
    and m: "memory_run (memory_step init) ss no_memory = Some m" "impls m a = Some v"
  shows "P v"
proof -
  have w: "value_run init ss Map.empty = Some (values_of m)" and o: "owned m"
    using simulates_run [OF owned_no_memory(1), of init ss] m(1) by (simp_all add: owned_no_memory(2))
  from ownedD(3) [OF o m(2)] obtain x where "objects m x = Some (Some a)" by blast
  then have "values_of m x = Some (Some v)" by (simp add: m(2))
  show ?thesis
  proof (rule value_run_keeps [where P = P, OF w])
    show "values_of m x = Some (Some v)" by fact
    show "P (f u)" if "Member f y \<in> set ss" "P u" for f y u
      using assms(2,3) that unfolding calls_only_def keeps_def by blast
  qed (simp_all add: assms(1))
qed

section \<open>Properties\<close>

text \<open>C27.  Well-formed options.  Whatever a program does with option objects of a class through its
  members, every implementation in memory is well-formed: a gRPC server has a host, a port and no empty
  token, key or certificate; publish and subscribe options allow at least one client (and a positive
  message size); the store has a positive retention, write buffer and number of memory tables; the
  broker has a positive retention and a non-negative compaction interval.\<close>

theorem built_options_wellformed:
  "(calls_only grpc_member gs \<and> memory_run GRPCServerOptions_members gs no_memory = Some m1 \<and>
      impls m1 a = Some v1 \<longrightarrow> grpc_wf v1) \<and>
   (calls_only publish_member ps \<and> memory_run PublishServiceOptions_members ps no_memory = Some m2 \<and>
      impls m2 a = Some v2 \<longrightarrow> publish_wf v2) \<and>
   (calls_only subscribe_member ss \<and> memory_run SubscribeServiceOptions_members ss no_memory = Some m3 \<and>
      impls m3 a = Some v3 \<longrightarrow> subscribe_wf v3) \<and>
   (calls_only rocks_member rs \<and> memory_run RocksDatabaseOptions_members rs no_memory = Some m4 \<and>
      impls m4 a = Some v4 \<longrightarrow> rocks_options_wf v4) \<and>
   (calls_only broker_member bs \<and> memory_run BrokerOptions_members bs no_memory = Some m5 \<and>
      impls m5 a = Some v5 \<longrightarrow> broker_options_wf v5)"
proof (intro conjI impI; elim conjE)
  assume "calls_only grpc_member gs" "memory_run GRPCServerOptions_members gs no_memory = Some m1"
    "impls m1 a = Some v1"
  then show "grpc_wf v1"
    unfolding class_members by (rule impls_keep [OF initial_wf(1) grpc_member_wf])
next
  assume "calls_only publish_member ps" "memory_run PublishServiceOptions_members ps no_memory = Some m2"
    "impls m2 a = Some v2"
  then show "publish_wf v2"
    unfolding class_members by (rule impls_keep [OF initial_wf(2) publish_member_wf])
next
  assume "calls_only subscribe_member ss" "memory_run SubscribeServiceOptions_members ss no_memory = Some m3"
    "impls m3 a = Some v3"
  then show "subscribe_wf v3"
    unfolding class_members by (rule impls_keep [OF initial_wf(3) subscribe_member_wf])
next
  assume "calls_only rocks_member rs" "memory_run RocksDatabaseOptions_members rs no_memory = Some m4"
    "impls m4 a = Some v4"
  then show "rocks_options_wf v4"
    unfolding class_members by (rule impls_keep [OF initial_wf(4) rocks_member_wf])
next
  assume "calls_only broker_member bs" "memory_run BrokerOptions_members bs no_memory = Some m5"
    "impls m5 a = Some v5"
  then show "broker_options_wf v5"
    unfolding class_members by (rule impls_keep [OF initial_wf(5) broker_member_wf])
qed

theorem built_options_wellformed_witness:
  "\<exists>m v. memory_run GRPCServerOptions_members
     [Construct ''a'', Member (kept (setPort 0)) ''a'', Member (kept (setHost ''h'')) ''a''] no_memory = Some m \<and>
     impls m 0 = Some v \<and> mHost v = ''h'' \<and> grpc_wf v"
proof -
  let ?gs = "[Construct ''a'', Member (kept (setPort 0)) ''a'', Member (kept (setHost ''h'')) ''a'']"
  obtain m where m: "memory_run GRPCServerOptions_members ?gs no_memory = Some m"
      "impls m 0 = Some (GRPCServerOptions_init\<lparr>mHost := ''h''\<rparr>)"
    by (simp add: class_members constructor_def make_unique_def no_memory_def call_member_def kept_def
        setPort_def setHost_def)
  moreover have "calls_only grpc_member ?gs"
    by (auto simp: calls_only_def intro: grpc_member.intros)
  ultimately have "grpc_wf (GRPCServerOptions_init\<lparr>mHost := ''h''\<rparr>)"
    using built_options_wellformed [of ?gs m 0 "GRPCServerOptions_init\<lparr>mHost := ''h''\<rparr>"] by blast
  with m show ?thesis by auto
qed

end
