(* ===== verification/Program_Options.thy ===== *)
theory Program_Options
  imports Rocks_Properties
begin

text \<open>
  The options of the main program: \<open>otelOptions.hpp\<close> (where logs and metrics are exported to) and
  \<open>programOptions.hpp\<close> (command line and initialization file).  The parsers of Boost are not in the
  repository: a parsed initialization file is known by the data at each path, a conversion of a
  string to a number or a boolean is a function that may fail, and reading the file is a parameter.
  The file system is the one of \<open>open_env\<close>.
\<close>

section \<open>Property trees\<close>

text \<open>\<open>get_optional<std::string>\<close> gives the data of the node at a path (empty data for a section).\<close>

record ptree =
  pt_data :: "string \<Rightarrow> string option"

record translators =
  as_int :: "string \<Rightarrow> int option"
  as_int64 :: "string \<Rightarrow> int option"
  as_uint16 :: "string \<Rightarrow> u16 option"
  as_size_t :: "string \<Rightarrow> u64 option"
  as_bool :: "string \<Rightarrow> bool option"

text \<open>\<open>get<T> (path, default)\<close>: the default stands in for a missing node and for data that does not
  convert.\<close>

definition pt_get :: "(string \<Rightarrow> 'v option) \<Rightarrow> ptree \<Rightarrow> string \<Rightarrow> 'v \<Rightarrow> 'v" where
  "pt_get conv propertyTree path default_value =
     (case Option.bind (pt_data propertyTree path) conv of None \<Rightarrow> default_value | Some v \<Rightarrow> v)"

definition ends_with :: "string \<Rightarrow> string \<Rightarrow> bool" where
  "ends_with s p \<longleftrightarrow> drop (length s - length p) s = p"

section \<open>Where logs and metrics go\<close>

text \<open>Intervals are in milliseconds.\<close>

definition getOTelMetricsIntervalAndTimeOut ::
  "translators \<Rightarrow> ptree \<Rightarrow> string \<Rightarrow> int \<Rightarrow> int \<Rightarrow> (int \<times> int) result" where
  "getOTelMetricsIntervalAndTimeOut T propertyTree section defaultExportInterval defaultExportTimeOut =
     (let exportInterval = pt_get (as_int64 T) propertyTree
            (section @ ''.exportIntervalInMilliSeconds'') defaultExportInterval
      in if exportInterval \<le> 0 then Inl (RuntimeError ''Export interval must be positive'')
      else let exportTimeOut = pt_get (as_int64 T) propertyTree
            (section @ ''.exportTimeOutInMilliSeconds'') defaultExportTimeOut
      in if exportTimeOut \<le> 0 then Inl (InvalidArgument ''Export time out must be positive'')
      else Inr (exportInterval, exportTimeOut))"

definition getOTelCollectorURL :: "translators \<Rightarrow> ptree \<Rightarrow> string \<Rightarrow> string" where
  "getOTelCollectorURL T propertyTree section =
     (let otelCollectorHost = pt_get Some propertyTree (section @ ''.host'') [];
          otelCollectorPort = pt_get (as_uint16 T) propertyTree (section @ ''.port'') 4218
      in if otelCollectorHost \<noteq> []
         then otelCollectorHost @ '':'' @ to_string (unat otelCollectorPort) else [])"

record GRPCMetrics =
  gm_url :: string
  gm_exportInterval :: int
  gm_exportTimeOut :: int
  gm_certificatePath :: string

record GRPCLog =
  gl_url :: string
  gl_exportTimeOut :: int
  gl_certificatePath :: string

record HTTPMetrics =
  hm_url :: string
  hm_exportInterval :: int
  hm_exportTimeOut :: int
  hm_suffix :: string

record HTTPLog =
  hl_url :: string
  hl_certificatePath :: string
  hl_suffix :: string

definition GRPCMetrics_init :: GRPCMetrics where
  "GRPCMetrics_init = \<lparr>gm_url = ''localhost:4317'', gm_exportInterval = 15000,
     gm_exportTimeOut = 500, gm_certificatePath = []\<rparr>"

definition GRPCLog_init :: GRPCLog where
  "GRPCLog_init = \<lparr>gl_url = ''localhost:4317'', gl_exportTimeOut = 500, gl_certificatePath = []\<rparr>"

definition HTTPMetrics_init :: HTTPMetrics where
  "HTTPMetrics_init = \<lparr>hm_url = ''localhost:4318'', hm_exportInterval = 15000,
     hm_exportTimeOut = 500, hm_suffix = ''/v1/metrics''\<rparr>"

definition HTTPLog_init :: HTTPLog where
  "HTTPLog_init = \<lparr>hl_url = ''localhost:4318'', hl_certificatePath = [], hl_suffix = ''/v1/logs''\<rparr>"

definition getHTTPLogOptionsFromIniFile ::
  "translators \<Rightarrow> ptree \<Rightarrow> string \<Rightarrow> HTTPLog option" where
  "getHTTPLogOptionsFromIniFile T propertyTree section =
     (case pt_data propertyTree section of None \<Rightarrow> None | Some _ \<Rightarrow>
        let url = getOTelCollectorURL T propertyTree section;
            suffix = pt_get Some propertyTree (section @ ''.suffix'') ''/v1/logs'';
            suffix = (if url \<noteq> [] \<and> suffix \<noteq> [] \<and> \<not> ends_with url ''/'' \<and> \<not> starts_with suffix ''/''
                      then ''/'' @ suffix else suffix)
        in Some (HTTPLog_init\<lparr>hl_url := url, hl_suffix := suffix\<rparr>))"

text \<open>The readers of the gRPC sections throw before they look at the file when the program is built
  without \<open>WITH_OTLP_GRPC\<close>.\<close>

definition getGRPCLogOptionsFromIniFile ::
  "bool \<Rightarrow> (string \<Rightarrow> bool) \<Rightarrow> translators \<Rightarrow> ptree \<Rightarrow> string \<Rightarrow> GRPCLog option result" where
  "getGRPCLogOptionsFromIniFile WITH_OTLP_GRPC exists T propertyTree section =
     (if \<not> WITH_OTLP_GRPC
      then Inl (RuntimeError ''Recompile with Conan to use gRPC logs exporter option'')
      else (case pt_data propertyTree section of None \<Rightarrow> Inr None | Some _ \<Rightarrow>
        let logOptions = GRPCLog_init\<lparr>gl_url := getOTelCollectorURL T propertyTree section\<rparr>
        in (case pt_data propertyTree (section @ ''.certificate'') of
              None \<Rightarrow> Inr (Some logOptions)
            | Some certificatePath \<Rightarrow>
                if exists certificatePath
                then Inr (Some (logOptions\<lparr>gl_certificatePath := certificatePath\<rparr>))
                else Inr (Some logOptions))))"

definition getHTTPMetricsOptionsFromIniFile ::
  "translators \<Rightarrow> ptree \<Rightarrow> string \<Rightarrow> HTTPMetrics option result" where
  "getHTTPMetricsOptionsFromIniFile T propertyTree section =
     (case pt_data propertyTree section of None \<Rightarrow> Inr None | Some _ \<Rightarrow>
        let url = getOTelCollectorURL T propertyTree section;
            suffix = pt_get Some propertyTree (section @ ''.suffix'') ''/v1/metrics'';
            suffix = (if url \<noteq> [] \<and> suffix \<noteq> [] \<and> \<not> ends_with url ''/'' \<and> \<not> starts_with suffix ''/''
                      then ''/'' @ suffix else suffix);
            metricsOptions = HTTPMetrics_init\<lparr>hm_url := url, hm_suffix := suffix\<rparr>
        in if url \<noteq> []
           then (case getOTelMetricsIntervalAndTimeOut T propertyTree section
                        (hm_exportInterval metricsOptions) (hm_exportTimeOut metricsOptions) of
                   Inl e \<Rightarrow> Inl e
                 | Inr (exportInterval, exportTimeOut) \<Rightarrow>
                     Inr (Some (metricsOptions\<lparr>hm_exportInterval := exportInterval,
                                               hm_exportTimeOut := exportTimeOut\<rparr>)))
           else Inr (Some metricsOptions))"

definition getGRPCMetricsOptionsFromIniFile ::
  "bool \<Rightarrow> (string \<Rightarrow> bool) \<Rightarrow> translators \<Rightarrow> ptree \<Rightarrow> string \<Rightarrow> GRPCMetrics option result" where
  "getGRPCMetricsOptionsFromIniFile WITH_OTLP_GRPC exists T propertyTree section =
     (if \<not> WITH_OTLP_GRPC
      then Inl (RuntimeError ''Recompile with Conan to use gRPC metrics exporter option'')
      else (case pt_data propertyTree section of None \<Rightarrow> Inr None | Some _ \<Rightarrow>
        let metricsOptions = GRPCMetrics_init\<lparr>gm_url := getOTelCollectorURL T propertyTree section\<rparr>
        in (case getOTelMetricsIntervalAndTimeOut T propertyTree section
                   (gm_exportInterval metricsOptions) (gm_exportTimeOut metricsOptions) of
              Inl e \<Rightarrow> Inl e
            | Inr (exportInterval, exportTimeOut) \<Rightarrow>
                let metricsOptions = metricsOptions\<lparr>gm_exportInterval := exportInterval,
                                                    gm_exportTimeOut := exportTimeOut\<rparr>
                in (case pt_data propertyTree (section @ ''.certificate'') of
                      None \<Rightarrow> Inr (Some metricsOptions)
                    | Some certificatePath \<Rightarrow>
                        if exists certificatePath
                        then Inr (Some (metricsOptions\<lparr>gm_certificatePath := certificatePath\<rparr>))
                        else Inr (Some metricsOptions)))))"

section \<open>Program options\<close>

record ProgramOptions =
  otelHTTPMetricsOptions :: HTTPMetrics
  otelHTTPLogOptions :: HTTPLog
  otelGRPCMetricsOptions :: GRPCMetrics
  otelGRPCLogOptions :: GRPCLog
  brokerOptions :: BrokerOptions
  rocksDatabaseOptions :: "RocksDatabaseOptions option"
  applicationName :: string
  printSummaryInterval :: int
  maximumImportQueueSize :: int
  verbosity :: int
  exportLogs :: bool
  exportLogsWithHTTP :: bool
  exportMetrics :: bool
  exportMetricsWithHTTP :: bool

definition APPLICATION_NAME :: string where "APPLICATION_NAME = ''uDataPacketBroker''"

definition ProgramOptions_init :: ProgramOptions where
  "ProgramOptions_init = \<lparr>otelHTTPMetricsOptions = HTTPMetrics_init, otelHTTPLogOptions = HTTPLog_init,
     otelGRPCMetricsOptions = GRPCMetrics_init, otelGRPCLogOptions = GRPCLog_init,
     brokerOptions = BrokerOptions_init, rocksDatabaseOptions = None,
     applicationName = APPLICATION_NAME, printSummaryInterval = 15 * 60,
     maximumImportQueueSize = 8192, verbosity = 3, exportLogs = False, exportLogsWithHTTP = True,
     exportMetrics = False, exportMetricsWithHTTP = True\<rparr>"

text \<open>The command line: \<open>parse\<close> is the parser of the library, with the count of \<open>help\<close> and the value
  of \<open>ini\<close>.\<close>

definition parseCommandLineOptions ::
  "('argv \<Rightarrow> (bool \<times> string option) result) \<Rightarrow> (string \<Rightarrow> bool) \<Rightarrow> 'argv \<Rightarrow> (string \<times> bool) result" where
  "parseCommandLineOptions parse exists argv =
     (case parse argv of Inl e \<Rightarrow> Inl e | Inr (help, ini) \<Rightarrow>
        if help then Inr ([], True)
        else (case ini of
                None \<Rightarrow> Inr ([], False)
              | Some iniFile \<Rightarrow>
                  if \<not> exists iniFile
                  then Inl (RuntimeError (''Initialization file: '' @ iniFile @ '' does not exist''))
                  else Inr (iniFile, False)))"

text \<open>The settings after the directory.\<close>

definition rocks_settings ::
  "translators \<Rightarrow> ptree \<Rightarrow> string \<Rightarrow> RocksDatabaseOptions \<Rightarrow> RocksDatabaseOptions option result" where
  "rocks_settings T propertyTree section options =
     (let overWriteIfExists = pt_get (as_bool T) propertyTree (section @ ''.overWriteIfExists'') False;
          options = disableOverWriteIfExists options;
          options = (if overWriteIfExists then enableOverWriteIfExists options else options);
          enableWAL = pt_get (as_bool T) propertyTree (section @ ''.enableWriteAheadLog'') False;
          options = disableWriteAheadLog options;
          options = (if enableWAL then enableWriteAheadLog options else options);
          writeBufferSizeInBytes = pt_get (as_size_t T) propertyTree
            (section @ ''.writeBufferSizeInBytes'') (mWriteBufferSizeInBytes options)
      in if writeBufferSizeInBytes < 1
         then Inl (InvalidArgument ''Write buffer size must be positive'') else
      (case setWriteBufferSizeInBytes writeBufferSizeInBytes options of
        Inl e \<Rightarrow> Inl e
      | Inr options \<Rightarrow>
        let maxMemoryTables = pt_get (as_int T) propertyTree
              (section @ ''.maximumNumberOfMemoryTables'') (mMaximumNumberOfMemoryTables options)
        in if maxMemoryTables < 1
           then Inl (InvalidArgument ''Max number of memory tables must be positive'') else
      (case setMaximumNumberOfMemoryTables maxMemoryTables options of
        Inl e \<Rightarrow> Inl e
      | Inr options \<Rightarrow> Inr (Some options))))"

text \<open>The test for the section ignores the argument \<open>section\<close>, as in the code.\<close>

definition getRocksDBOptions ::
  "('disk, 'db) open_env \<Rightarrow> translators \<Rightarrow> ptree \<Rightarrow> string \<Rightarrow> 'disk
   \<Rightarrow> RocksDatabaseOptions option result \<times> 'disk" where
  "getRocksDBOptions E T propertyTree section disk =
     (if pt_data propertyTree ''RocksDB'' = None then (Inr None, disk) else
      let databaseDirectory = pt_get Some propertyTree (section @ ''.directory'') ''rocksdb'';
          databaseDirectory = (if databaseDirectory = [] then ''./'' else databaseDirectory)
      in (case (if path_exists E disk databaseDirectory then (Inr True, disk)
                else create_directories E disk databaseDirectory) of
        (Inl e, disk) \<Rightarrow> (Inl e, disk)
      | (Inr False, disk) \<Rightarrow>
          (Inl (RuntimeError (''Could not make RocksDB directory '' @ databaseDirectory)), disk)
      | (Inr True, disk) \<Rightarrow>
      (case setDatabaseDirectory databaseDirectory RocksDatabaseOptions_init of
        Inl e \<Rightarrow> (Inl e, disk)
      | Inr options \<Rightarrow> (rocks_settings T propertyTree section options, disk))))"

text \<open>The two parts of the initialization file that choose an exporter: the HTTP section, or else the
  gRPC one.\<close>

definition read_log_options ::
  "bool \<Rightarrow> (string \<Rightarrow> bool) \<Rightarrow> translators \<Rightarrow> ptree \<Rightarrow> ProgramOptions \<Rightarrow> ProgramOptions result" where
  "read_log_options WITH_OTLP_GRPC exists T propertyTree options =
     (let httpLog = getHTTPLogOptionsFromIniFile T propertyTree ''OTelHTTPLogOptions'';
          options = options\<lparr>exportLogs := False\<rparr>
      in (case httpLog of
            Some l \<Rightarrow> Inr (options\<lparr>otelHTTPLogOptions := l, exportLogs := True,
                                    exportLogsWithHTTP := True\<rparr>)
          | None \<Rightarrow>
              (case getGRPCLogOptionsFromIniFile WITH_OTLP_GRPC exists T propertyTree
                      ''OTelGRPCLogOptions'' of
                 Inl e \<Rightarrow> Inl e
               | Inr None \<Rightarrow> Inr options
               | Inr (Some l) \<Rightarrow> Inr (options\<lparr>otelGRPCLogOptions := l, exportLogs := True,
                                              exportLogsWithHTTP := False\<rparr>))))"

definition read_metrics_options ::
  "bool \<Rightarrow> (string \<Rightarrow> bool) \<Rightarrow> translators \<Rightarrow> ptree \<Rightarrow> ProgramOptions \<Rightarrow> ProgramOptions result" where
  "read_metrics_options WITH_OTLP_GRPC exists T propertyTree options =
     (case getHTTPMetricsOptionsFromIniFile T propertyTree ''OTelHTTPMetricsOptions'' of
        Inl e \<Rightarrow> Inl e
      | Inr httpMetrics \<Rightarrow>
        let options = options\<lparr>exportMetrics := False\<rparr>
        in (case httpMetrics of
              Some m \<Rightarrow> Inr (options\<lparr>otelHTTPMetricsOptions := m, exportMetrics := True,
                                      exportMetricsWithHTTP := True\<rparr>)
            | None \<Rightarrow>
                (case getGRPCMetricsOptionsFromIniFile WITH_OTLP_GRPC exists T propertyTree
                        ''OTelGRPCMetricsOptions'' of
                   Inl e \<Rightarrow> Inl e
                 | Inr None \<Rightarrow> Inr options
                 | Inr (Some m) \<Rightarrow> Inr (options\<lparr>otelGRPCMetricsOptions := m, exportMetrics := True,
                                                exportMetricsWithHTTP := False\<rparr>))))"

text \<open>The default of the summary interval is read in seconds and used in minutes, as in the code.\<close>

definition parseIniFile ::
  "bool \<Rightarrow> ('disk, 'db) open_env \<Rightarrow> translators \<Rightarrow> ('disk \<Rightarrow> string \<Rightarrow> ptree result) \<Rightarrow> string \<Rightarrow> 'disk
   \<Rightarrow> ProgramOptions result \<times> 'disk" where
  "parseIniFile WITH_OTLP_GRPC E T read_ini iniFile disk =
     (let options = ProgramOptions_init
      in if \<not> path_exists E disk iniFile then (Inr options, disk) else
      (case read_ini disk iniFile of Inl e \<Rightarrow> (Inl e, disk) | Inr propertyTree \<Rightarrow>
        let options = options\<lparr>applicationName := pt_get Some propertyTree ''General.applicationName''
                                                   (applicationName options)\<rparr>;
            options = (if applicationName options = []
                       then options\<lparr>applicationName := APPLICATION_NAME\<rparr> else options);
            options = options\<lparr>verbosity := pt_get (as_int T) propertyTree ''General.verbosity''
                                             (verbosity options)\<rparr>;
            summaryIntervalInMinutes = printSummaryInterval options;
            summaryIntervalInMinutes = pt_get (as_int T) propertyTree
              ''General.printSummaryIntervalInMinutes'' summaryIntervalInMinutes;
            options = options\<lparr>printSummaryInterval := 60 * summaryIntervalInMinutes\<rparr>
        in (case getRocksDBOptions E T propertyTree ''RocksDB'' disk of
              (Inl e, disk) \<Rightarrow> (Inl e, disk)
            | (Inr rocksOptions, disk) \<Rightarrow>
        let options = options\<lparr>rocksDatabaseOptions := rocksOptions\<rparr>
        in if rocksOptions = None
           then (Inl (RuntimeError ''Only RocksDB data store is implemented''), disk) else
        (case read_log_options WITH_OTLP_GRPC (path_exists E disk) T propertyTree options of
           Inl e \<Rightarrow> (Inl e, disk)
         | Inr options \<Rightarrow>
        (read_metrics_options WITH_OTLP_GRPC (path_exists E disk) T propertyTree options, disk)))))"

section \<open>What the readers accept and give\<close>

lemma pt_get_missing [simp]: "pt_data t path = None \<Longrightarrow> pt_get conv t path d = d"
  by (simp add: pt_get_def)

lemma word_less_one [simp]: "(w :: u64) < 1 \<longleftrightarrow> w = 0"
  by (simp add: word_less_nat_alt unat_eq_0)

text \<open>The export intervals of a section are positive, and then they are read unchanged.\<close>

definition intervals_ok :: "translators \<Rightarrow> ptree \<Rightarrow> string \<Rightarrow> bool" where
  "intervals_ok T t sec \<longleftrightarrow>
     0 < pt_get (as_int64 T) t (sec @ ''.exportIntervalInMilliSeconds'') 15000 \<and>
     0 < pt_get (as_int64 T) t (sec @ ''.exportTimeOutInMilliSeconds'') 500"

lemma intervals_Inr_iff:
  "getOTelMetricsIntervalAndTimeOut T t sec 15000 500 = Inr (i, o') \<longleftrightarrow>
     intervals_ok T t sec \<and>
     i = pt_get (as_int64 T) t (sec @ ''.exportIntervalInMilliSeconds'') 15000 \<and>
     o' = pt_get (as_int64 T) t (sec @ ''.exportTimeOutInMilliSeconds'') 500"
  by (auto simp: getOTelMetricsIntervalAndTimeOut_def intervals_ok_def Let_def not_le)

lemma intervals_accepted:
  "(\<exists>e. getOTelMetricsIntervalAndTimeOut T t sec 15000 500 = Inl e) \<longleftrightarrow> \<not> intervals_ok T t sec"
  by (auto simp: getOTelMetricsIntervalAndTimeOut_def intervals_ok_def Let_def not_le not_less)

text \<open>The RocksDB section.\<close>

definition rocks_directory :: "ptree \<Rightarrow> string" where
  "rocks_directory t = (let d = pt_get Some t ''RocksDB.directory'' ''rocksdb'' in if d = [] then ''./'' else d)"

definition directory_ready :: "('disk, 'db) open_env \<Rightarrow> 'disk \<Rightarrow> string \<Rightarrow> bool" where
  "directory_ready E disk d \<longleftrightarrow> path_exists E disk d \<or> fst (create_directories E disk d) = Inr True"

definition rocks_options_of :: "translators \<Rightarrow> ptree \<Rightarrow> RocksDatabaseOptions" where
  "rocks_options_of T t =
     \<lparr>mDatabaseDirectory = rocks_directory t, mRetention = 3600,
      mWriteBufferSizeInBytes = pt_get (as_size_t T) t ''RocksDB.writeBufferSizeInBytes'' (push_bit 20 128),
      mMaximumNumberOfMemoryTables = pt_get (as_int T) t ''RocksDB.maximumNumberOfMemoryTables'' 2,
      mEnableWriteAheadLog = pt_get (as_bool T) t ''RocksDB.enableWriteAheadLog'' False,
      mOverWriteIfExists = pt_get (as_bool T) t ''RocksDB.overWriteIfExists'' False\<rparr>"

definition rocks_options_ok :: "RocksDatabaseOptions \<Rightarrow> bool" where
  "rocks_options_ok o' \<longleftrightarrow> mDatabaseDirectory o' \<noteq> [] \<and> 0 < mRetention o' \<and>
     mWriteBufferSizeInBytes o' \<noteq> 0 \<and> 1 \<le> mMaximumNumberOfMemoryTables o'"

lemma rocks_directory_nonempty [simp]: "rocks_directory t \<noteq> []"
  by (simp add: rocks_directory_def Let_def)

lemma rocks_settings_eq:
  "d \<noteq> [] \<Longrightarrow> rocks_settings T t ''RocksDB'' (RocksDatabaseOptions_init\<lparr>mDatabaseDirectory := d\<rparr>) =
     (let o' = (rocks_options_of T t)\<lparr>mDatabaseDirectory := d\<rparr>
      in if mWriteBufferSizeInBytes o' = 0
         then Inl (InvalidArgument ''Write buffer size must be positive'')
         else if mMaximumNumberOfMemoryTables o' < 1
         then Inl (InvalidArgument ''Max number of memory tables must be positive'')
         else Inr (Some o'))"
  by (cases "pt_get (as_bool T) t ''RocksDB.overWriteIfExists'' False";
      cases "pt_get (as_bool T) t ''RocksDB.enableWriteAheadLog'' False")
    (simp_all add: rocks_settings_def rocks_options_of_def setWriteBufferSizeInBytes_def
      setMaximumNumberOfMemoryTables_def RocksDatabaseOptions_init_def disableOverWriteIfExists_def
      enableOverWriteIfExists_def disableWriteAheadLog_def enableWriteAheadLog_def Let_def)

lemma rocks_options_of_directory [simp]:
  "mDatabaseDirectory (rocks_options_of T t) = rocks_directory t" "mRetention (rocks_options_of T t) = 3600"
  "(rocks_options_of T t)\<lparr>mDatabaseDirectory := rocks_directory t\<rparr> = rocks_options_of T t"
  by (simp_all add: rocks_options_of_def)

lemma getRocksDBOptions_eq:
  "pt_data t ''RocksDB'' \<noteq> None \<Longrightarrow> fst (getRocksDBOptions E T t ''RocksDB'' disk) =
     (case if path_exists E disk (rocks_directory t) then Inr True
           else fst (create_directories E disk (rocks_directory t)) of
        Inl e \<Rightarrow> Inl e
      | Inr False \<Rightarrow> Inl (RuntimeError (''Could not make RocksDB directory '' @ rocks_directory t))
      | Inr True \<Rightarrow> rocks_settings T t ''RocksDB''
                       (RocksDatabaseOptions_init\<lparr>mDatabaseDirectory := rocks_directory t\<rparr>))"
  unfolding getRocksDBOptions_def rocks_directory_def setDatabaseDirectory_def Let_def
  by (auto split: prod.split sum.split bool.split)

lemma getRocksDBOptions_None_iff:
  "fst (getRocksDBOptions E T t ''RocksDB'' disk) = Inr None \<longleftrightarrow> pt_data t ''RocksDB'' = None"
proof (cases "pt_data t ''RocksDB''")
  case None
  then show ?thesis by (simp add: getRocksDBOptions_def)
next
  case (Some a)
  then show ?thesis
    by (auto simp: getRocksDBOptions_eq rocks_settings_eq Let_def split: sum.split bool.split)
qed

lemma getRocksDBOptions_Some_iff:
  "fst (getRocksDBOptions E T t ''RocksDB'' disk) = Inr (Some o') \<longleftrightarrow>
     pt_data t ''RocksDB'' \<noteq> None \<and> directory_ready E disk (rocks_directory t) \<and>
     rocks_options_ok (rocks_options_of T t) \<and> o' = rocks_options_of T t"
proof (cases "pt_data t ''RocksDB''")
  case None
  then show ?thesis by (simp add: getRocksDBOptions_def)
next
  case (Some a)
  then show ?thesis
    by (auto simp: getRocksDBOptions_eq rocks_settings_eq Let_def directory_ready_def rocks_options_ok_def
        split: sum.split bool.split)
qed

text \<open>The sections of the exporters.\<close>

definition log_accepted :: "bool \<Rightarrow> ptree \<Rightarrow> bool" where
  "log_accepted WITH_OTLP_GRPC t \<longleftrightarrow> WITH_OTLP_GRPC \<or> pt_data t ''OTelHTTPLogOptions'' \<noteq> None"

definition metrics_accepted :: "bool \<Rightarrow> translators \<Rightarrow> ptree \<Rightarrow> bool" where
  "metrics_accepted WITH_OTLP_GRPC T t \<longleftrightarrow>
     (if pt_data t ''OTelHTTPMetricsOptions'' \<noteq> None
      then getOTelCollectorURL T t ''OTelHTTPMetricsOptions'' \<noteq> [] \<longrightarrow> intervals_ok T t ''OTelHTTPMetricsOptions''
      else WITH_OTLP_GRPC \<and>
        (pt_data t ''OTelGRPCMetricsOptions'' \<noteq> None \<longrightarrow> intervals_ok T t ''OTelGRPCMetricsOptions''))"

lemma HTTPMetrics_none_iff:
  "getHTTPMetricsOptionsFromIniFile T t sec = Inr None \<longleftrightarrow> pt_data t sec = None"
  by (auto simp: getHTTPMetricsOptionsFromIniFile_def Let_def split: option.splits sum.splits)

lemma HTTPMetrics_some:
  assumes "getHTTPMetricsOptionsFromIniFile T t sec = Inr (Some m)"
  shows "pt_data t sec \<noteq> None \<and> hm_url m = getOTelCollectorURL T t sec \<and>
    (hm_url m \<noteq> [] \<longrightarrow> intervals_ok T t sec) \<and> 0 < hm_exportInterval m \<and> 0 < hm_exportTimeOut m"
  using assms
  by (auto simp: getHTTPMetricsOptionsFromIniFile_def HTTPMetrics_init_def Let_def intervals_Inr_iff
      intervals_ok_def split: option.splits sum.splits if_splits)

lemma HTTPMetrics_error_iff:
  "(\<exists>e. getHTTPMetricsOptionsFromIniFile T t sec = Inl e) \<longleftrightarrow>
     pt_data t sec \<noteq> None \<and> getOTelCollectorURL T t sec \<noteq> [] \<and> \<not> intervals_ok T t sec"
proof (cases "getOTelMetricsIntervalAndTimeOut T t sec 15000 500")
  case (Inl e)
  then have "\<not> intervals_ok T t sec" using intervals_accepted by blast
  with Inl show ?thesis
    by (auto simp: getHTTPMetricsOptionsFromIniFile_def HTTPMetrics_init_def Let_def split: option.splits)
next
  case (Inr p)
  then have "intervals_ok T t sec" using intervals_accepted [of T t sec] by auto
  with Inr show ?thesis
    by (auto simp: getHTTPMetricsOptionsFromIniFile_def HTTPMetrics_init_def Let_def
        split: option.splits prod.splits)
qed

lemma GRPCMetrics_cases:
  "case getGRPCMetricsOptionsFromIniFile g exists T t sec of
     Inl e \<Rightarrow> \<not> g \<or> (pt_data t sec \<noteq> None \<and> \<not> intervals_ok T t sec)
   | Inr None \<Rightarrow> g \<and> pt_data t sec = None
   | Inr (Some m) \<Rightarrow> g \<and> pt_data t sec \<noteq> None \<and> intervals_ok T t sec \<and>
       0 < gm_exportInterval m \<and> 0 < gm_exportTimeOut m"
proof (cases "getOTelMetricsIntervalAndTimeOut T t sec 15000 500")
  case (Inl e)
  then have "\<not> intervals_ok T t sec" using intervals_accepted by blast
  with Inl show ?thesis
    by (auto simp: getGRPCMetricsOptionsFromIniFile_def GRPCMetrics_init_def Let_def split: option.splits)
next
  case (Inr p)
  moreover obtain i o' where "p = (i, o')" by (cases p)
  ultimately have "intervals_ok T t sec" "0 < i" "0 < o'" "p = (i, o')"
    using intervals_Inr_iff [of T t sec i o'] by (auto simp: intervals_ok_def)
  with Inr show ?thesis
    by (auto simp: getGRPCMetricsOptionsFromIniFile_def GRPCMetrics_init_def Let_def split: option.splits)
qed

lemma GRPCLog_cases:
  "case getGRPCLogOptionsFromIniFile g exists T t sec of
     Inl e \<Rightarrow> \<not> g | Inr None \<Rightarrow> g \<and> pt_data t sec = None
   | Inr (Some l) \<Rightarrow> g \<and> pt_data t sec \<noteq> None"
  by (auto simp: getGRPCLogOptionsFromIniFile_def Let_def split: option.splits)

lemma HTTPLog_none_iff:
  "getHTTPLogOptionsFromIniFile T t sec = None \<longleftrightarrow> pt_data t sec = None"
  by (auto simp: getHTTPLogOptionsFromIniFile_def Let_def split: option.splits)

lemma read_log_options_cases:
  "case read_log_options g exists T t options of
     Inl e \<Rightarrow> \<not> log_accepted g t
   | Inr o' \<Rightarrow> log_accepted g t \<and>
       o' = options\<lparr>otelHTTPLogOptions := otelHTTPLogOptions o', otelGRPCLogOptions := otelGRPCLogOptions o',
                    exportLogs := exportLogs o', exportLogsWithHTTP := exportLogsWithHTTP o'\<rparr> \<and>
       (exportLogs o' \<longleftrightarrow> pt_data t ''OTelHTTPLogOptions'' \<noteq> None \<or> pt_data t ''OTelGRPCLogOptions'' \<noteq> None) \<and>
       (exportLogs o' \<longrightarrow> (exportLogsWithHTTP o' \<longleftrightarrow> pt_data t ''OTelHTTPLogOptions'' \<noteq> None))"
  using GRPCLog_cases [where g = g and exists = exists and T = T and t = t and sec = "''OTelGRPCLogOptions''"] HTTPLog_none_iff [of T t "''OTelHTTPLogOptions''"]
  by (auto simp: read_log_options_def log_accepted_def split: option.splits sum.splits)

lemma read_metrics_options_cases:
  "case read_metrics_options g exists T t options of
     Inl e \<Rightarrow> \<not> metrics_accepted g T t
   | Inr o' \<Rightarrow> metrics_accepted g T t \<and>
       o' = options\<lparr>otelHTTPMetricsOptions := otelHTTPMetricsOptions o',
                    otelGRPCMetricsOptions := otelGRPCMetricsOptions o',
                    exportMetrics := exportMetrics o', exportMetricsWithHTTP := exportMetricsWithHTTP o'\<rparr> \<and>
       (exportMetrics o' \<longleftrightarrow>
          pt_data t ''OTelHTTPMetricsOptions'' \<noteq> None \<or> pt_data t ''OTelGRPCMetricsOptions'' \<noteq> None) \<and>
       (exportMetrics o' \<longrightarrow>
          (if pt_data t ''OTelHTTPMetricsOptions'' \<noteq> None
           then exportMetricsWithHTTP o' \<and> 0 < hm_exportInterval (otelHTTPMetricsOptions o') \<and>
                0 < hm_exportTimeOut (otelHTTPMetricsOptions o')
           else \<not> exportMetricsWithHTTP o' \<and> 0 < gm_exportInterval (otelGRPCMetricsOptions o') \<and>
                0 < gm_exportTimeOut (otelGRPCMetricsOptions o')))"
proof (cases "getHTTPMetricsOptionsFromIniFile T t ''OTelHTTPMetricsOptions''")
  case (Inl e)
  then have "pt_data t ''OTelHTTPMetricsOptions'' \<noteq> None \<and>
      getOTelCollectorURL T t ''OTelHTTPMetricsOptions'' \<noteq> [] \<and> \<not> intervals_ok T t ''OTelHTTPMetricsOptions''"
    using HTTPMetrics_error_iff by blast
  with Inl show ?thesis by (simp add: read_metrics_options_def metrics_accepted_def)
next
  case (Inr h)
  show ?thesis
  proof (cases h)
    case None
    with Inr have "pt_data t ''OTelHTTPMetricsOptions'' = None" by (simp add: HTTPMetrics_none_iff)
    with Inr None GRPCMetrics_cases [where g = g and exists = exists and T = T and t = t and sec = "''OTelGRPCMetricsOptions''"] show ?thesis
      by (auto simp: read_metrics_options_def metrics_accepted_def split: option.splits sum.splits)
  next
    case (Some m)
    from HTTPMetrics_some [OF Inr [unfolded Some]] Inr Some show ?thesis
      by (auto simp: read_metrics_options_def metrics_accepted_def)
  qed
qed

section \<open>The initialization file\<close>

definition general_options :: "translators \<Rightarrow> ptree \<Rightarrow> ProgramOptions" where
  "general_options T t = ProgramOptions_init
     \<lparr>applicationName := (let n = pt_get Some t ''General.applicationName'' ''uDataPacketBroker''
                         in if n = [] then ''uDataPacketBroker'' else n),
      verbosity := pt_get (as_int T) t ''General.verbosity'' 3,
      printSummaryInterval := 60 * pt_get (as_int T) t ''General.printSummaryIntervalInMinutes'' 900\<rparr>"

lemma parseIniFile_eq:
  assumes "path_exists E disk f" "read_ini disk f = Inr t"
  shows "parseIniFile g E T read_ini f disk =
    (case getRocksDBOptions E T t ''RocksDB'' disk of
       (Inl e, disk') \<Rightarrow> (Inl e, disk')
     | (Inr None, disk') \<Rightarrow> (Inl (RuntimeError ''Only RocksDB data store is implemented''), disk')
     | (Inr (Some r), disk') \<Rightarrow>
         (case read_log_options g (path_exists E disk') T t
                 ((general_options T t)\<lparr>rocksDatabaseOptions := Some r\<rparr>) of
            Inl e \<Rightarrow> (Inl e, disk')
          | Inr o' \<Rightarrow> (read_metrics_options g (path_exists E disk') T t o', disk')))"
proof -
  have "(if n = [] then (ProgramOptions_init\<lparr>applicationName := n\<rparr>)\<lparr>applicationName := APPLICATION_NAME\<rparr>
         else ProgramOptions_init\<lparr>applicationName := n\<rparr>) =
        ProgramOptions_init\<lparr>applicationName := if n = [] then ''uDataPacketBroker'' else n\<rparr>" for n
    by (simp add: APPLICATION_NAME_def)
  with assms show ?thesis
    by (simp add: parseIniFile_def general_options_def APPLICATION_NAME_def ProgramOptions_init_def Let_def
        split: prod.split sum.split option.split)
qed

lemma parse_accepted_iff:
  assumes "path_exists E disk f"
  shows "(\<exists>o'. fst (parseIniFile g E T read_ini f disk) = Inr o') \<longleftrightarrow>
    (\<exists>t. read_ini disk f = Inr t \<and> pt_data t ''RocksDB'' \<noteq> None \<and>
         directory_ready E disk (rocks_directory t) \<and> rocks_options_ok (rocks_options_of T t) \<and>
         log_accepted g t \<and> metrics_accepted g T t)"
proof (cases "read_ini disk f")
  case (Inl e)
  with assms show ?thesis by (simp add: parseIniFile_def)
next
  case (Inr t)
  obtain r disk' where r: "getRocksDBOptions E T t ''RocksDB'' disk = (r, disk')" by fastforce
  let ?o = "\<lambda>x. (general_options T t)\<lparr>rocksDatabaseOptions := Some x\<rparr>"
  have accepted: "(\<exists>o'. (case read_log_options g (path_exists E disk') T t (?o x) of
       Inl e \<Rightarrow> Inl e | Inr o' \<Rightarrow> read_metrics_options g (path_exists E disk') T t o') = Inr o') \<longleftrightarrow>
       log_accepted g t \<and> metrics_accepted g T t" for x
  proof (cases "read_log_options g (path_exists E disk') T t (?o x)")
    case (Inl e)
    with read_log_options_cases [where g = g and exists = "path_exists E disk'" and T = T and t = t
        and options = "?o x"] show ?thesis by simp
  next
    case (Inr o1)
    with read_log_options_cases [where g = g and exists = "path_exists E disk'" and T = T and t = t
        and options = "?o x"] have "log_accepted g t" by simp
    with Inr read_metrics_options_cases [where g = g and exists = "path_exists E disk'" and T = T and t = t
        and options = o1] show ?thesis
      by (cases "read_metrics_options g (path_exists E disk') T t o1") simp_all
  qed
  show ?thesis
  proof (cases r)
    case (Inl e)
    with r getRocksDBOptions_Some_iff [of E T t disk "rocks_options_of T t"] getRocksDBOptions_None_iff [of E T t disk] assms Inr show ?thesis
      by (auto simp: parseIniFile_eq)
  next
    case (Inr x)
    show ?thesis
    proof (cases x)
      case None
      with r Inr getRocksDBOptions_None_iff [of E T t disk] assms \<open>read_ini disk f = Inr t\<close> show ?thesis
        by (simp add: parseIniFile_eq)
    next
      case (Some y)
      with r Inr getRocksDBOptions_Some_iff [of E T t disk y] assms \<open>read_ini disk f = Inr t\<close> accepted [of y]
      show ?thesis by (simp add: parseIniFile_eq sum.case_distrib [of fst] cong: sum.case_cong)
    qed
  qed
qed

text \<open>C35.  Which initialization files are accepted.  An existing file gives options exactly when it can
  be read, has a \<open>RocksDB\<close> section whose directory exists or can be made and whose buffer size and
  number of tables are positive, and exporters can be chosen: a section for HTTP logs (or a build
  with gRPC), and a section for HTTP metrics with positive intervals if it names a host (or a build
  with gRPC and positive intervals in the gRPC section if there is one).  So a build without gRPC
  refuses every file without both HTTP sections, also one that wants to export nothing.\<close>

theorem parseIniFile_accepts:
  assumes "path_exists E disk f"
  shows "(\<exists>o'. fst (parseIniFile g E T read_ini f disk) = Inr o') \<longleftrightarrow>
    (\<exists>t. read_ini disk f = Inr t \<and> pt_data t ''RocksDB'' \<noteq> None \<and>
         directory_ready E disk (rocks_directory t) \<and> rocks_options_ok (rocks_options_of T t) \<and>
         log_accepted g t \<and> metrics_accepted g T t)"
  using parse_accepted_iff [OF assms] .

text \<open>The three stages an accepted file has gone through.\<close>

lemma parse_stages:
  assumes "path_exists E disk f" "read_ini disk f = Inr t"
    and "fst (parseIniFile g E T read_ini f disk) = Inr o'"
  obtains exists o1 where "rocks_options_ok (rocks_options_of T t)"
    "read_log_options g exists T t ((general_options T t)\<lparr>rocksDatabaseOptions := Some (rocks_options_of T t)\<rparr>) = Inr o1"
    "read_metrics_options g exists T t o1 = Inr o'"
proof -
  obtain r disk' where r: "getRocksDBOptions E T t ''RocksDB'' disk = (r, disk')" by fastforce
  with assms obtain x o1 where x: "r = Inr (Some x)"
    and o1: "read_log_options g (path_exists E disk') T t
       ((general_options T t)\<lparr>rocksDatabaseOptions := Some x\<rparr>) = Inr o1"
    and o': "read_metrics_options g (path_exists E disk') T t o1 = Inr o'"
    by (auto simp: parseIniFile_eq split: sum.splits option.splits)
  have "x = rocks_options_of T t" "rocks_options_ok (rocks_options_of T t)"
    using getRocksDBOptions_Some_iff [of E T t disk x] r x by simp_all
  with that o1 o' show thesis by blast
qed

lemma parse_result_members:
  assumes "path_exists E disk f" "read_ini disk f = Inr t"
    and "fst (parseIniFile g E T read_ini f disk) = Inr o'"
  shows "rocksDatabaseOptions o' = Some (rocks_options_of T t)" "brokerOptions o' = BrokerOptions_init"
    "applicationName o' = applicationName (general_options T t)"
    "verbosity o' = verbosity (general_options T t)" "maximumImportQueueSize o' = 8192"
    "printSummaryInterval o' = printSummaryInterval (general_options T t)"
    "g \<or> exportLogsWithHTTP o' \<and> exportMetricsWithHTTP o'"
    "exportLogs o' \<longleftrightarrow> pt_data t ''OTelHTTPLogOptions'' \<noteq> None \<or> pt_data t ''OTelGRPCLogOptions'' \<noteq> None"
proof -
  from assms obtain exists o1 where
    o1: "read_log_options g exists T t ((general_options T t)\<lparr>rocksDatabaseOptions := Some (rocks_options_of T t)\<rparr>) = Inr o1"
    and o': "read_metrics_options g exists T t o1 = Inr o'" by (rule parse_stages)
  note log = read_log_options_cases [where g = g and exists = "exists" and T = T and t = t
        and options = "(general_options T t)\<lparr>rocksDatabaseOptions := Some (rocks_options_of T t)\<rparr>",
        unfolded o1, simplified]
  note metrics = read_metrics_options_cases [where g = g and exists = "exists" and T = T and t = t
        and options = o1, unfolded o', simplified]
  have o1_eq: "rocksDatabaseOptions o1 = Some (rocks_options_of T t)" "brokerOptions o1 = BrokerOptions_init"
    "applicationName o1 = applicationName (general_options T t)"
    "verbosity o1 = verbosity (general_options T t)" "maximumImportQueueSize o1 = 8192"
    "printSummaryInterval o1 = printSummaryInterval (general_options T t)"
    by (subst log [THEN conjunct2, THEN conjunct1], simp add: general_options_def ProgramOptions_init_def)+
  have o'_eq: "rocksDatabaseOptions o' = rocksDatabaseOptions o1" "brokerOptions o' = brokerOptions o1"
    "applicationName o' = applicationName o1" "verbosity o' = verbosity o1"
    "maximumImportQueueSize o' = maximumImportQueueSize o1" "exportLogs o' = exportLogs o1"
    "exportLogsWithHTTP o' = exportLogsWithHTTP o1" "printSummaryInterval o' = printSummaryInterval o1"
    by (subst metrics [THEN conjunct2, THEN conjunct1], simp)+
  show "rocksDatabaseOptions o' = Some (rocks_options_of T t)" "brokerOptions o' = BrokerOptions_init"
    "applicationName o' = applicationName (general_options T t)"
    "verbosity o' = verbosity (general_options T t)" "maximumImportQueueSize o' = 8192"
    "printSummaryInterval o' = printSummaryInterval (general_options T t)"
    by (simp_all add: o1_eq o'_eq)
  from log [THEN conjunct2, THEN conjunct2]
  show "exportLogs o' \<longleftrightarrow> pt_data t ''OTelHTTPLogOptions'' \<noteq> None \<or> pt_data t ''OTelGRPCLogOptions'' \<noteq> None"
    by (auto simp: o'_eq)
  from log metrics show "g \<or> exportLogsWithHTTP o' \<and> exportMetricsWithHTTP o'"
    by (auto simp: o'_eq log_accepted_def metrics_accepted_def split: if_splits)
qed

text \<open>C36.  What an accepted file gives: valid RocksDB options with the default retention of an hour, a
  non-empty application name, positive export intervals, exporters switched on exactly by the presence
  of their sections, and a summary interval of 900 minutes if the file has none.  The options of the
  broker and the size of the import queue are never read.\<close>

theorem parseIniFile_result:
  assumes "path_exists E disk f" "read_ini disk f = Inr t"
    and "fst (parseIniFile g E T read_ini f disk) = Inr o'"
  shows "rocksDatabaseOptions o' = Some (rocks_options_of T t) \<and> rocks_options_ok (rocks_options_of T t) \<and>
    applicationName o' \<noteq> [] \<and> verbosity o' = pt_get (as_int T) t ''General.verbosity'' 3 \<and>
    printSummaryInterval o' = 60 * pt_get (as_int T) t ''General.printSummaryIntervalInMinutes'' 900 \<and>
    brokerOptions o' = BrokerOptions_init \<and> maximumImportQueueSize o' = 8192 \<and>
    (exportLogs o' \<longleftrightarrow> pt_data t ''OTelHTTPLogOptions'' \<noteq> None \<or> pt_data t ''OTelGRPCLogOptions'' \<noteq> None) \<and>
    (exportMetrics o' \<longleftrightarrow>
       pt_data t ''OTelHTTPMetricsOptions'' \<noteq> None \<or> pt_data t ''OTelGRPCMetricsOptions'' \<noteq> None) \<and>
    (exportMetrics o' \<longrightarrow>
       (if exportMetricsWithHTTP o'
        then 0 < hm_exportInterval (otelHTTPMetricsOptions o') \<and> 0 < hm_exportTimeOut (otelHTTPMetricsOptions o')
        else 0 < gm_exportInterval (otelGRPCMetricsOptions o') \<and> 0 < gm_exportTimeOut (otelGRPCMetricsOptions o')))"
proof -
  from assms obtain exists o1 where ok: "rocks_options_ok (rocks_options_of T t)"
    and o': "read_metrics_options g exists T t o1 = Inr o'" by (rule parse_stages)
  note metrics = read_metrics_options_cases [where g = g and exists = "exists" and T = T and t = t
        and options = o1, unfolded o', simplified]
  from ok parse_result_members [OF assms] metrics [THEN conjunct2, THEN conjunct2] show ?thesis
    by (auto simp: general_options_def Let_def split: if_splits)
qed

section \<open>An example file\<close>

text \<open>Decimal numbers only, as the translators of the example.\<close>

definition demo_decimal :: "string \<Rightarrow> nat option" where
  "demo_decimal s = (if s \<noteq> [] \<and> list_all (\<lambda>c. c \<in> set ''0123456789'') s
     then Some (foldl (\<lambda>n c. 10 * n + (of_char c - 48)) 0 s) else None)"

definition demo_translators :: translators where
  "demo_translators = \<lparr>as_int = map_option int \<circ> demo_decimal, as_int64 = map_option int \<circ> demo_decimal,
     as_uint16 = map_option of_nat \<circ> demo_decimal, as_size_t = map_option of_nat \<circ> demo_decimal,
     as_bool = map_option (\<lambda>n. n \<noteq> 0) \<circ> demo_decimal\<rparr>"

definition demo_tree :: ptree where
  "demo_tree = \<lparr>pt_data = map_of
     [(''General'', []), (''General.verbosity'', ''4''), (''RocksDB'', []), (''RocksDB.directory'', ''db''),
      (''RocksDB.enableWriteAheadLog'', ''1''), (''RocksDB.maximumNumberOfMemoryTables'', ''3''),
      (''OTelHTTPLogOptions'', []), (''OTelHTTPMetricsOptions'', []),
      (''OTelHTTPMetricsOptions.host'', ''otel''),
      (''OTelHTTPMetricsOptions.exportIntervalInMilliSeconds'', ''2000'')]\<rparr>"

definition demo_read_ini :: "string list \<Rightarrow> string \<Rightarrow> ptree result" where
  "demo_read_ini disk f = Inr demo_tree"

lemma demo_exists: "path_exists demo_env [''b.ini''] ''b.ini''"
  by (simp add: demo_env_def)

lemma demo_accepted:
  "pt_data demo_tree ''RocksDB'' \<noteq> None" "directory_ready demo_env [''b.ini''] (rocks_directory demo_tree)"
  "rocks_options_ok (rocks_options_of demo_translators demo_tree)"
  "log_accepted False demo_tree" "metrics_accepted False demo_translators demo_tree"
  by (simp_all add: demo_tree_def demo_env_def directory_ready_def rocks_options_ok_def rocks_options_of_def
      demo_translators_def demo_decimal_def pt_get_def log_accepted_def metrics_accepted_def intervals_ok_def)

theorem parseIniFile_accepts_witness:
  "\<exists>o'. fst (parseIniFile False demo_env demo_translators demo_read_ini ''b.ini'' [''b.ini'']) = Inr o'"
  using parseIniFile_accepts [OF demo_exists] demo_accepted by (simp add: demo_read_ini_def)

lemma demo_parse:
  "\<exists>o'. fst (parseIniFile False demo_env demo_translators demo_read_ini ''b.ini'' [''b.ini'']) = Inr o'"
  using parse_accepted_iff [OF demo_exists] demo_accepted by (simp add: demo_read_ini_def)

theorem parseIniFile_result_witness:
  "\<exists>o'. fst (parseIniFile False demo_env demo_translators demo_read_ini ''b.ini'' [''b.ini'']) = Inr o' \<and>
     verbosity o' = 4 \<and> printSummaryInterval o' = 54000 \<and> exportLogs o'"
proof -
  obtain o' where p: "fst (parseIniFile False demo_env demo_translators demo_read_ini ''b.ini'' [''b.ini'']) = Inr o'"
    using demo_parse by blast
  from parseIniFile_result [OF demo_exists _ this, of demo_tree] have
    "verbosity o' = pt_get (as_int demo_translators) demo_tree ''General.verbosity'' 3"
    "printSummaryInterval o' =
       60 * pt_get (as_int demo_translators) demo_tree ''General.printSummaryIntervalInMinutes'' 900"
    "exportLogs o' \<longleftrightarrow> pt_data demo_tree ''OTelHTTPLogOptions'' \<noteq> None \<or>
       pt_data demo_tree ''OTelGRPCLogOptions'' \<noteq> None"
    by (simp_all add: demo_read_ini_def)
  with p show ?thesis
    by (simp add: demo_tree_def pt_get_def demo_translators_def demo_decimal_def)
qed

end
