(* ===== verification/Program.thy ===== *)
theory Program
  imports Broker_System Program_Options
begin

text \<open>
  The executable: export of logs and metrics (\<open>logger.hpp\<close>, \<open>metrics.hpp\<close>, \<open>otelSpdlogSink.hpp\<close>), the
  process around the broker and \<open>main\<close> (\<open>main.cpp\<close>).  spdlog and OpenTelemetry are not in the
  repository: of a logger the model keeps what it is built from, of a provider the exporter it was
  created with.  \<open>WITH_OTLP_GRPC\<close> is the flag the program is built with.
\<close>

section \<open>Export of logs and metrics\<close>

text \<open>An exporter with its endpoint, and for gRPC the certificate authority when it uses TLS.\<close>

datatype exporter = HttpExporter string | GrpcExporter string "string option"

record metric_reader =
  mr_exporter :: exporter
  mr_export_interval_millis :: int
  mr_export_timeout_millis :: int

text \<open>The variables of the two headers and the global providers of OpenTelemetry.\<close>

record Telemetry =
  loggerProvider :: "exporter option"
  metricsInitialized :: bool
  otel_LoggerProvider :: "exporter option"
  otel_MeterProvider :: "metric_reader option"

definition Telemetry_init :: Telemetry where
  "Telemetry_init = \<lparr>loggerProvider = None, metricsInitialized = False,
     otel_LoggerProvider = None, otel_MeterProvider = None\<rparr>"

datatype level = level_trace | level_debug | level_info | level_warn | level_err | level_critical | level_off

text \<open>spdlog numbers its levels in this order and logs a message of at least the logger's level.\<close>

fun level_number :: "level \<Rightarrow> nat" where
  "level_number level_trace = 0" | "level_number level_debug = 1" | "level_number level_info = 2"
| "level_number level_warn = 3" | "level_number level_err = 4" | "level_number level_critical = 5"
| "level_number level_off = 6"

instantiation level :: linorder
begin

definition less_eq_level :: "level \<Rightarrow> level \<Rightarrow> bool" where
  "less_eq_level x y \<longleftrightarrow> level_number x \<le> level_number y"

definition less_level :: "level \<Rightarrow> level \<Rightarrow> bool" where
  "less_level x y \<longleftrightarrow> level_number x < level_number y"

instance
proof
  fix x y :: level
  show "x \<le> y \<Longrightarrow> y \<le> x \<Longrightarrow> x = y"
    by (cases x; cases y) (simp_all add: less_eq_level_def)
qed (auto simp: less_eq_level_def less_level_def)

end

datatype sink = ConsoleSink | OpenTelemetrySink

record spd_logger =
  lg_name :: string
  lg_sinks :: "sink list"
  lg_level :: level

definition setVerbosityForSPDLOG :: "int \<Rightarrow> spd_logger \<Rightarrow> spd_logger" where
  "setVerbosityForSPDLOG level logger =
     (let logger = (if level \<le> 1 then logger\<lparr>lg_level := level_critical\<rparr> else logger);
          logger = (if level = 2 then logger\<lparr>lg_level := level_warn\<rparr> else logger);
          logger = (if level = 3 then logger\<lparr>lg_level := level_info\<rparr> else logger)
      in if level \<ge> 4 then logger\<lparr>lg_level := level_debug\<rparr> else logger)"

text \<open>A higher verbosity never hides a message a lower one shows, and errors are hidden only below 2.\<close>

lemma verbosity_lowers_level:
  "v \<le> w \<Longrightarrow> lg_level (setVerbosityForSPDLOG w l) \<le> lg_level (setVerbosityForSPDLOG v l')"
  "lg_level (setVerbosityForSPDLOG v l) \<le> level_err \<longleftrightarrow> 2 \<le> v"
  by (auto simp: setVerbosityForSPDLOG_def less_eq_level_def)

text \<open>A new spdlog logger has level \<open>info\<close>.\<close>

definition new_logger :: "string \<Rightarrow> sink list \<Rightarrow> spd_logger" where
  "new_logger name sinks = \<lparr>lg_name = name, lg_sinks = sinks, lg_level = level_info\<rparr>"

definition logger_initializeHTTP ::
  "int \<Rightarrow> bool \<Rightarrow> HTTPLog \<Rightarrow> Telemetry \<Rightarrow> spd_logger \<times> Telemetry" where
  "logger_initializeHTTP level enabled options tel =
     (let (logger, tel) =
        (if enabled
         then let exporter = HttpExporter (hl_url options @ hl_suffix options);
                  tel = tel\<lparr>loggerProvider := Some exporter\<rparr>;
                  tel = tel\<lparr>otel_LoggerProvider := loggerProvider tel\<rparr>
              in (new_logger ''OTelLogger'' [OpenTelemetrySink, ConsoleSink], tel)
         else (new_logger [] [ConsoleSink], tel))
      in (setVerbosityForSPDLOG level logger, tel))"

definition logger_initializeGRPC ::
  "(string \<Rightarrow> bool) \<Rightarrow> int \<Rightarrow> bool \<Rightarrow> GRPCLog \<Rightarrow> Telemetry \<Rightarrow> spd_logger \<times> Telemetry" where
  "logger_initializeGRPC exists level enabled options tel =
     (let (logger, tel) =
        (if enabled
         then let cacert = (if gl_certificatePath options \<noteq> [] \<and> exists (gl_certificatePath options)
                            then Some (gl_certificatePath options) else None);
                  exporter = GrpcExporter (gl_url options) cacert;
                  tel = tel\<lparr>loggerProvider := Some exporter\<rparr>;
                  tel = tel\<lparr>otel_LoggerProvider := loggerProvider tel\<rparr>
              in (new_logger ''OTelLogger'' [OpenTelemetrySink, ConsoleSink], tel)
         else (new_logger [] [ConsoleSink], tel))
      in (setVerbosityForSPDLOG level logger, tel))"

definition logger_initialize ::
  "bool \<Rightarrow> (string \<Rightarrow> bool) \<Rightarrow> ProgramOptions \<Rightarrow> Telemetry \<Rightarrow> (spd_logger \<times> Telemetry) result" where
  "logger_initialize WITH_OTLP_GRPC exists options tel =
     (if exportLogsWithHTTP options
      then Inr (logger_initializeHTTP (verbosity options) (exportLogs options)
                  (otelHTTPLogOptions options) tel)
      else if WITH_OTLP_GRPC
      then Inr (logger_initializeGRPC exists (verbosity options) (exportLogs options)
                  (otelGRPCLogOptions options) tel)
      else Inl (RuntimeError ''Recompile with Conan and OTLP_GRPC''))"

definition logger_cleanup :: "Telemetry \<Rightarrow> Telemetry" where
  "logger_cleanup tel =
     (if loggerProvider tel \<noteq> None
      then tel\<lparr>loggerProvider := None, otel_LoggerProvider := None\<rparr> else tel)"

definition metrics_initializeHTTP :: "bool \<Rightarrow> HTTPMetrics \<Rightarrow> Telemetry \<Rightarrow> Telemetry" where
  "metrics_initializeHTTP enabled options tel =
     (if \<not> enabled then tel
      else let reader = \<lparr>mr_exporter = HttpExporter (hm_url options @ hm_suffix options),
                         mr_export_interval_millis = hm_exportInterval options,
                         mr_export_timeout_millis = hm_exportTimeOut options\<rparr>
      in tel\<lparr>otel_MeterProvider := Some reader, metricsInitialized := True\<rparr>)"

definition metrics_initializeGRPC :: "bool \<Rightarrow> GRPCMetrics \<Rightarrow> Telemetry \<Rightarrow> Telemetry" where
  "metrics_initializeGRPC enabled options tel =
     (if \<not> enabled then tel
      else let cacert = (if gm_certificatePath options \<noteq> [] then Some (gm_certificatePath options) else None);
               reader = \<lparr>mr_exporter = GrpcExporter (gm_url options) cacert,
                         mr_export_interval_millis = gm_exportInterval options,
                         mr_export_timeout_millis = gm_exportTimeOut options\<rparr>
      in tel\<lparr>otel_MeterProvider := Some reader, metricsInitialized := True\<rparr>)"

definition metrics_initialize :: "bool \<Rightarrow> ProgramOptions \<Rightarrow> Telemetry \<Rightarrow> Telemetry result" where
  "metrics_initialize WITH_OTLP_GRPC options tel =
     (if exportMetricsWithHTTP options
      then Inr (metrics_initializeHTTP (exportMetrics options) (otelHTTPMetricsOptions options) tel)
      else if WITH_OTLP_GRPC
      then Inr (metrics_initializeGRPC (exportMetrics options) (otelGRPCMetricsOptions options) tel)
      else Inl (RuntimeError ''Recompile with Conan and OTLP_GRPC''))"

definition metrics_cleanup :: "Telemetry \<Rightarrow> Telemetry" where
  "metrics_cleanup tel =
     (let tel = (if metricsInitialized tel then tel\<lparr>otel_MeterProvider := None\<rparr> else tel)
      in tel\<lparr>metricsInitialized := False\<rparr>)"

section \<open>The sink that forwards log messages\<close>

datatype severity = kInvalid | kTrace | kDebug | kInfo | kWarn | kError | kFatal

fun levelToSeverity :: "level \<Rightarrow> severity" where
  "levelToSeverity level_critical = kFatal"
| "levelToSeverity level_err = kError"
| "levelToSeverity level_warn = kWarn"
| "levelToSeverity level_info = kInfo"
| "levelToSeverity level_debug = kDebug"
| "levelToSeverity level_trace = kTrace"
| "levelToSeverity level_off = kInvalid"

definition libraryVersion :: "nat \<times> nat \<times> nat \<Rightarrow> string" where
  "libraryVersion = (\<lambda>(major, minor, patch).
     to_string major @ ''.'' @ to_string minor @ ''.'' @ to_string patch)"

record log_msg =
  msg_logger_name :: string
  msg_level :: level
  msg_payload :: string
  msg_time :: i64
  msg_source :: "(string \<times> int) option"
  msg_thread_id :: nat

record log_record =
  rec_scope :: "string \<times> string \<times> string"
  rec_severity :: severity
  rec_body :: string
  rec_timestamp :: i64
  rec_source :: "(string \<times> int) option"
  rec_thread_id :: nat

text \<open>\<open>CreateLogRecord\<close> may give a null pointer; \<open>emitted\<close> is what the provider was handed so far.\<close>

definition sink_it ::
  "nat \<times> nat \<times> nat \<Rightarrow> bool \<Rightarrow> log_msg \<Rightarrow> log_record list \<Rightarrow> log_record list" where
  "sink_it SPDLOG_VER log_record_created msg emitted =
     (if log_record_created
      then emitted @ [\<lparr>rec_scope = (msg_logger_name msg, ''spdlog'', libraryVersion SPDLOG_VER),
                       rec_severity = levelToSeverity (msg_level msg), rec_body = msg_payload msg,
                       rec_timestamp = msg_time msg, rec_source = msg_source msg,
                       rec_thread_id = msg_thread_id msg\<rparr>]
      else emitted)"

section \<open>The process\<close>

text \<open>The store is shared with the broker: while there is a broker, its state is the broker's.\<close>

record 's Process =
  pc_mOptions :: ProgramOptions
  pc_mLastReport :: int
  pc_mDataPacketStore :: 's
  pc_mBroker :: "'s Broker option"
  pc_mStopRequested :: bool
  pc_mIsRunning :: bool

text \<open>What became of a call: it still waits, the program was terminated (a null pointer, or an exception
  that leaves a destructor), or it returned.\<close>

datatype 'p run = Waiting | Crashed | Finished 'p

definition Process_construct ::
  "('disk, 'db) open_env \<Rightarrow> int \<Rightarrow> ProgramOptions \<Rightarrow> 'disk \<Rightarrow> 'db RocksDatabase Process result \<times> 'disk" where
  "Process_construct E now options disk =
     (case rocksDatabaseOptions options of
        None \<Rightarrow> (Inl (InvalidArgument ''No data store defined''), disk)
      | Some rocksOptions \<Rightarrow>
          (case RocksDatabase_construct E rocksOptions disk of
             (Inl e, disk) \<Rightarrow> (Inl e, disk)
           | (Inr store, disk) \<Rightarrow>
               (Inr \<lparr>pc_mOptions = options, pc_mLastReport = now, pc_mDataPacketStore = store,
                     pc_mBroker = None, pc_mStopRequested = False, pc_mIsRunning = False\<rparr>, disk)))"

text \<open>\<open>stop\<close> destroys the broker, whose destructor stops it; \<open>settle\<close> is what the threads of the broker
  do between the signal and the taking of their results.\<close>

definition process_stop ::
  "'s IDataPacketStore \<Rightarrow> ('s Broker \<Rightarrow> 's Broker) \<Rightarrow> 's Process \<Rightarrow> 's Process run" where
  "process_stop S settle p =
     (case pc_mBroker p of
        None \<Rightarrow> Finished p
      | Some b \<Rightarrow>
          (case stop_join (settle (stop_signal S b)) of
             None \<Rightarrow> Waiting
           | Some (Some e, b) \<Rightarrow> Crashed
           | Some (None, b) \<Rightarrow>
               Finished (p\<lparr>pc_mBroker := None, pc_mDataPacketStore := br_mDataPacketStore b\<rparr>)))"

definition process_checkFuturesOkay :: "'s Process \<Rightarrow> bool \<times> 's Process" where
  "process_checkFuturesOkay p =
     (let isOkay = True
      in (case pc_mBroker p of
            None \<Rightarrow> (isOkay, p)
          | Some b \<Rightarrow>
              let (isOkay, b) = checkFuturesOkay b
              in (isOkay, p\<lparr>pc_mBroker := Some b\<rparr>)))"

text \<open>Neither branch of \<open>printSummary\<close> does anything.\<close>

definition printSummary :: "int \<Rightarrow> 's Process \<Rightarrow> 's Process" where
  "printSummary now p =
     (if printSummaryInterval (pc_mOptions p) \<le> 0 then p
      else if now < pc_mLastReport p + printSummaryInterval (pc_mOptions p) then p
      else p)"

text \<open>The rounds of the main thread.  For each round: what the broker's threads have done since the
  last one, whether a signal has arrived, and the time.  \<open>None\<close>: the loop still runs after these.\<close>

fun main_loop ::
  "(('s Broker \<Rightarrow> 's Broker) \<times> bool \<times> int) list \<Rightarrow> 's Process \<Rightarrow> 's Process option" where
  "main_loop rounds p =
     (if pc_mStopRequested p then Some p
      else (case rounds of
        [] \<Rightarrow> None
      | (threads, mInterrupted, now) # rounds \<Rightarrow>
          let p = p\<lparr>pc_mBroker := map_option threads (pc_mBroker p)\<rparr>
          in if mInterrupted then Some (p\<lparr>pc_mStopRequested := True\<rparr>)
          else let (okay, p) = process_checkFuturesOkay p
          in if \<not> okay then Some (p\<lparr>pc_mStopRequested := True\<rparr>)
          else main_loop rounds (printSummary now p)))"

declare main_loop.simps [simp del]

definition handleMainThread ::
  "'s IDataPacketStore \<Rightarrow> ('s Broker \<Rightarrow> 's Broker) \<Rightarrow> (('s Broker \<Rightarrow> 's Broker) \<times> bool \<times> int) list
   \<Rightarrow> 's Process \<Rightarrow> 's Process run" where
  "handleMainThread S settle rounds p =
     (case main_loop rounds p of
        None \<Rightarrow> Waiting
      | Some p \<Rightarrow> if pc_mStopRequested p then process_stop S settle p else Finished p)"

text \<open>\<open>start\<close> calls the broker through its pointer.\<close>

definition process_start ::
  "'s IDataPacketStore \<Rightarrow> ('s Broker \<Rightarrow> 's Broker) \<Rightarrow> (('s Broker \<Rightarrow> 's Broker) \<times> bool \<times> int) list
   \<Rightarrow> 's Process \<Rightarrow> 's Process run" where
  "process_start S settle rounds p =
     (let p = p\<lparr>pc_mIsRunning := True\<rparr>
      in (case pc_mBroker p of
            None \<Rightarrow> Crashed
          | Some b \<Rightarrow> handleMainThread S settle rounds (p\<lparr>pc_mBroker := Some (start b)\<rparr>)))"

section \<open>The main program\<close>

datatype exit_code = EXIT_SUCCESS | EXIT_FAILURE

record 'disk World =
  w_disk :: 'disk
  w_env :: "string \<rightharpoonup> string"
  w_telemetry :: Telemetry
  w_metrics :: "MetricsSingleton option"     \<comment> \<open>constructed when it is first asked for\<close>

definition initializeMetricsSingleton :: "'disk World \<Rightarrow> 'disk World" where
  "initializeMetricsSingleton w =
     w\<lparr>w_metrics := Some (case w_metrics w of None \<Rightarrow> MetricsSingleton_init | Some m \<Rightarrow> m)\<rparr>"

text \<open>The creation of the process is commented out in the source.  The errors are those of the code under
  \<open>src\<close> and of the readers of the command line and of the file; an exception of spdlog or OpenTelemetry
  inside \<open>try\<close> is not modelled.\<close>

definition main_program ::
  "bool \<Rightarrow> ('argv \<Rightarrow> (bool \<times> string option) result) \<Rightarrow> ('disk, 'db) open_env \<Rightarrow> translators
   \<Rightarrow> ('disk \<Rightarrow> string \<Rightarrow> ptree result) \<Rightarrow> 'argv \<Rightarrow> 'disk World \<Rightarrow> exit_code \<times> 'disk World" where
  "main_program WITH_OTLP_GRPC parse E T read_ini argv w =
     (let w = initializeMetricsSingleton w
      in (case parseCommandLineOptions parse (path_exists E (w_disk w)) argv of
        Inl e \<Rightarrow> (EXIT_FAILURE, w)
      | Inr (iniFileName, isHelp) \<Rightarrow>
        if isHelp then (EXIT_SUCCESS, w)
        else if iniFileName = [] then (EXIT_FAILURE, w) else
      (case parseIniFile WITH_OTLP_GRPC E T read_ini iniFileName (w_disk w) of
        (Inl e, disk) \<Rightarrow> (EXIT_FAILURE, w\<lparr>w_disk := disk\<rparr>)
      | (Inr programOptions, disk) \<Rightarrow>
        let w = w\<lparr>w_disk := disk\<rparr>;
            w = (if w_env w ''OTEL_SERVICE_NAME'' = None
                 then w\<lparr>w_env := (w_env w)(''OTEL_SERVICE_NAME'' \<mapsto> applicationName programOptions)\<rparr>
                 else w)
        in (case logger_initialize WITH_OTLP_GRPC (path_exists E disk) programOptions (w_telemetry w) of
              Inl e \<Rightarrow> (EXIT_FAILURE, w)
            | Inr (logger, tel) \<Rightarrow>
        let w = w\<lparr>w_telemetry := tel\<rparr>
        in (case metrics_initialize WITH_OTLP_GRPC programOptions (w_telemetry w) of
              Inl e \<Rightarrow> (EXIT_FAILURE, w\<lparr>w_telemetry := logger_cleanup (w_telemetry w)\<rparr>)
            | Inr tel \<Rightarrow> (EXIT_SUCCESS, w\<lparr>w_telemetry := tel\<rparr>))))))"

end
