(* ===== verification/Program_System.thy ===== *)
theory Program_System
  imports Program
begin

text \<open>The properties of the executable: what its exit code says, what it leaves behind, and what
  becomes of a process that is started.\<close>

section \<open>The main thread\<close>

lemma main_loop_simps:
  "pc_mStopRequested p \<Longrightarrow> main_loop rounds p = Some p"
  "\<not> pc_mStopRequested p \<Longrightarrow> main_loop [] p = None"
  "\<not> pc_mStopRequested p \<Longrightarrow> main_loop ((threads, True, now) # rounds) p =
     Some (p\<lparr>pc_mBroker := map_option threads (pc_mBroker p), pc_mStopRequested := True\<rparr>)"
  by (subst main_loop.simps, simp)+

lemma main_loop_broker:
  assumes "pc_mBroker p = Some b" "\<not> pc_mStopRequested p"
  shows "main_loop ((threads, False, now) # rounds) p =
    Some (p\<lparr>pc_mBroker := Some (snd (checkFuturesOkay (threads b))), pc_mStopRequested := True\<rparr>)"
proof -
  obtain b' where "checkFuturesOkay (threads b) = (False, b')"
    using checkFuturesOkay_never [of "threads b"] by (cases "checkFuturesOkay (threads b)") simp
  with assms show ?thesis
    by (subst main_loop.simps) (simp add: process_checkFuturesOkay_def)
qed

lemma futures_after_check:
  "br_mFuturesMap (snd (checkFuturesOkay b)) =
     map (\<lambda>(name, f). (name, if f = Pending then Pending else Taken)) (br_mFuturesMap b)"
  using checkFuturesOkay_never by blast

lemma stop_signal_futures [simp]: "br_mFuturesMap (stop_signal S b) = br_mFuturesMap b"
  by (simp add: stop_signal_def stop_publishing_def stop_loops_def ask_shutdown_def flush_store_def
      Let_def split: prod.split)

abbreviation settled :: "(string \<times> future) list \<Rightarrow> (string \<times> future) list" where
  "settled \<equiv> map (\<lambda>(name, f). (name, if f = Taken then Taken else Ready None))"

lemma get_settled:
  "list_all (\<lambda>(name, f). f = Pending) fm \<Longrightarrow>
     get_futures (settled (map (\<lambda>(name, f). (name, if f = Pending then Pending else Taken)) fm)) =
       Some (None, map take_result fm)"
  "\<not> list_all (\<lambda>(name, f). f = Pending) fm \<Longrightarrow>
     \<exists>e gs. get_futures (settled (map (\<lambda>(name, f). (name, if f = Pending then Pending else Taken)) fm)) =
       Some (Some e, gs)"
  by (induction fm) auto

text \<open>C39.  A process with a broker shuts down in its first round although no signal has arrived, because
  the check of the broker's threads never succeeds.  If then all threads end normally when they are
  told to stop, it ends if all of them were still running at the check; if one had ended before, its
  result was taken by the check, taking it again while the broker is destroyed throws, and the
  program is terminated.\<close>

theorem process_shuts_down_at_once:
  assumes "pc_mBroker p = Some b" "\<not> pc_mStopRequested p"
    and "\<And>b. br_mFuturesMap (settle b) = settled (br_mFuturesMap b)"
  shows "handleMainThread S settle ((threads, False, now) # rounds) p =
    (if list_all (\<lambda>(name, f). f = Pending) (br_mFuturesMap (threads b))
     then Finished (p\<lparr>pc_mBroker := None, pc_mStopRequested := True,
            pc_mDataPacketStore :=
              br_mDataPacketStore (settle (stop_signal S (snd (checkFuturesOkay (threads b)))))\<rparr>)
     else Crashed)"
proof (cases "list_all (\<lambda>(name, f). f = Pending) (br_mFuturesMap (threads b))")
  case True
  with get_settled(1) [OF True] assms show ?thesis
    by (simp add: handleMainThread_def main_loop_broker process_stop_def stop_join_def futures_after_check)
next
  case False
  with get_settled(2) [OF False] assms show ?thesis
    by (auto simp: handleMainThread_def main_loop_broker process_stop_def stop_join_def futures_after_check)
qed

text \<open>A process with the broker of the examples, whose threads then end as they should, and one of whose
  threads has ended before.\<close>

definition demo_settle :: "'s Broker \<Rightarrow> 's Broker" where
  "demo_settle b = b\<lparr>br_mFuturesMap := settled (br_mFuturesMap b)\<rparr>"

definition demo_process :: "mem_db RocksDatabase Process" where
  "demo_process = \<lparr>pc_mOptions = ProgramOptions_init, pc_mLastReport = 0, pc_mDataPacketStore = demo_store,
     pc_mBroker = Some demo_broker, pc_mStopRequested = False, pc_mIsRunning = True\<rparr>"

lemma demo_futures: "list_all (\<lambda>(name, f). f = Pending) (br_mFuturesMap demo_broker)"
proof -
  obtain b where b: "Broker_construct (RocksStore mem_rocks demo_ser) demo_broker_options
      (Some demo_store) MetricsSingleton_init = Inr b" and start: "demo_broker = start b"
    using demo_construct by blast
  from b have "br_mFuturesMap b = []"
    by (auto simp: Broker_construct_def split: if_splits sum.splits option.splits)
  then show ?thesis unfolding start by (simp add: start_def)
qed

theorem process_shuts_down_at_once_witness:
  "\<exists>p'. handleMainThread (RocksStore mem_rocks demo_ser) demo_settle [(\<lambda>b. b, False, 5)] demo_process = Finished p'
     \<and> pc_mBroker p' = None"
  using process_shuts_down_at_once [of demo_process demo_broker demo_settle _ "\<lambda>b. b" 5 "[]"] demo_futures
  by (simp add: demo_process_def demo_settle_def)

section \<open>From the initialization file to the process\<close>

text \<open>C40.  The process of an accepted initialization file opens its store with exactly the options of
  the file's RocksDB section, and is then terminated when it is started: its constructor creates no
  broker, and \<open>start\<close> calls one.\<close>

theorem process_of_file_crashes:
  assumes "path_exists E disk f" "read_ini disk f = Inr t"
    and "fst (parseIniFile g E T read_ini f disk) = Inr o'"
    and "Process_construct E now o' disk' = (Inr p, disk'')"
  shows "RocksDatabase_construct E (rocks_options_of T t) disk' = (Inr (pc_mDataPacketStore p), disk'') \<and>
    rd_mOptions (pc_mDataPacketStore p) = rocks_options_of T t \<and>
    (rd_mInitialized (pc_mDataPacketStore p) \<longrightarrow> rd_mDisableWriteAheadLog (pc_mDataPacketStore p) =
       (\<not> pt_get (as_bool T) t ''RocksDB.enableWriteAheadLog'' False)) \<and>
    process_start S settle rounds p = Crashed"
proof -
  have "rocksDatabaseOptions o' = Some (rocks_options_of T t)"
    by (rule parse_result_members [OF assms(1-3)])
  with assms(4) have p: "RocksDatabase_construct E (rocks_options_of T t) disk' = (Inr (pc_mDataPacketStore p), disk'')"
    "pc_mBroker p = None"
    by (auto simp: Process_construct_def split: sum.splits prod.splits)
  with construct_store [of "rocks_options_of T t" E disk'] show ?thesis
    by (simp add: process_start_def rocks_options_of_def)
qed

text \<open>A process of the example file.\<close>

definition demo_options :: ProgramOptions where
  "demo_options = projr (fst (parseIniFile False demo_env demo_translators demo_read_ini ''b.ini'' [''b.ini'']))"

lemma demo_options: "fst (parseIniFile False demo_env demo_translators demo_read_ini ''b.ini'' [''b.ini'']) =
    Inr demo_options"
  using demo_parse by (auto simp: demo_options_def)

theorem process_of_file_crashes_witness:
  "\<exists>p disk''. Process_construct demo_env 0 demo_options [''b.ini'', ''db''] = (Inr p, disk'') \<and>
     process_start (RocksStore mem_rocks demo_ser) demo_settle [] p = Crashed"
proof -
  have "rocksDatabaseOptions demo_options = Some (rocks_options_of demo_translators demo_tree)"
    by (rule parse_result_members [OF demo_exists _ demo_options]) (simp add: demo_read_ini_def)
  then obtain p disk'' where p: "Process_construct demo_env 0 demo_options [''b.ini'', ''db''] = (Inr p, disk'')"
    by (simp add: Process_construct_def RocksDatabase_construct_def open_database_def RocksDatabase_init_def
        hasDatabaseDirectory_def getDatabaseDirectory_def ensure_parent_def demo_env_def Let_def)
  with process_of_file_crashes [OF demo_exists _ demo_options p, of demo_tree] show ?thesis
    by (simp add: demo_read_ini_def)
qed

section \<open>The exit code and what is left behind\<close>

lemma initialize_accepted:
  assumes "g \<or> exportLogsWithHTTP o' \<and> exportMetricsWithHTTP o'"
  obtains l tel1 tel2 where "logger_initialize g exists o' tel = Inr (l, tel1)"
    "metrics_initialize g o' tel1 = Inr tel2"
    "loggerProvider tel1 = (if exportLogs o' then otel_LoggerProvider tel1 else loggerProvider tel)"
    "exportLogs o' \<longrightarrow> loggerProvider tel1 \<noteq> None" "\<not> exportLogs o' \<longrightarrow> tel1 = tel"
    "loggerProvider tel2 = loggerProvider tel1" "otel_LoggerProvider tel2 = otel_LoggerProvider tel1"
    "exportMetrics o' \<longrightarrow> metricsInitialized tel2 \<and> otel_MeterProvider tel2 \<noteq> None"
    "\<not> exportMetrics o' \<longrightarrow> tel2 = tel1"
    "metricsInitialized tel1 = metricsInitialized tel" "otel_MeterProvider tel1 = otel_MeterProvider tel"
  using assms
  by (cases "logger_initialize g exists o' tel"; cases "metrics_initialize g o' (snd (projr (logger_initialize g exists o' tel)))")
    (auto simp: logger_initialize_def logger_initializeHTTP_def logger_initializeGRPC_def metrics_initialize_def
      metrics_initializeHTTP_def metrics_initializeGRPC_def Let_def split: if_splits)

lemma initializeMetricsSingleton_simps [simp]:
  "w_disk (initializeMetricsSingleton w) = w_disk w" "w_env (initializeMetricsSingleton w) = w_env w"
  "w_telemetry (initializeMetricsSingleton w) = w_telemetry w"
  by (simp_all add: initializeMetricsSingleton_def)

lemma main_program_file:
  assumes "parse argv = Inr (False, Some f)" "f \<noteq> []" "path_exists E (w_disk w) f"
    and "parseIniFile g E T read_ini f (w_disk w) = (Inr o', disk')"
    and "logger_initialize g (path_exists E disk') o' (w_telemetry w) = Inr (l, tel1)"
    and "metrics_initialize g o' tel1 = Inr tel2"
  shows "main_program g parse E T read_ini argv w =
    (EXIT_SUCCESS, \<lparr>w_disk = disk', w_env = (if w_env w ''OTEL_SERVICE_NAME'' = None
       then (w_env w)(''OTEL_SERVICE_NAME'' \<mapsto> applicationName o') else w_env w), w_telemetry = tel2,
       w_metrics = w_metrics (initializeMetricsSingleton w)\<rparr>)"
  using assms
  by (cases w) (simp add: main_program_def parseCommandLineOptions_def initializeMetricsSingleton_def Let_def)

lemma main_program_cases:
  "case parse argv of
     Inl e \<Rightarrow> fst (main_program g parse E T read_ini argv w) = EXIT_FAILURE
   | Inr (True, ini) \<Rightarrow> main_program g parse E T read_ini argv w = (EXIT_SUCCESS, initializeMetricsSingleton w)
   | Inr (False, None) \<Rightarrow> fst (main_program g parse E T read_ini argv w) = EXIT_FAILURE
   | Inr (False, Some f) \<Rightarrow>
       if f = [] \<or> \<not> path_exists E (w_disk w) f \<or> (\<exists>e. fst (parseIniFile g E T read_ini f (w_disk w)) = Inl e)
       then fst (main_program g parse E T read_ini argv w) = EXIT_FAILURE else True"
  by (auto simp: main_program_def parseCommandLineOptions_def Let_def split: sum.split option.split bool.split prod.split)

lemma main_program_accepted:
  assumes "parse argv = Inr (False, Some f)" "f \<noteq> []" "path_exists E (w_disk w) f"
    and "parseIniFile g E T read_ini f (w_disk w) = (Inr o', disk')"
  obtains tel2 where "main_program g parse E T read_ini argv w =
    (EXIT_SUCCESS, \<lparr>w_disk = disk', w_env = (if w_env w ''OTEL_SERVICE_NAME'' = None
       then (w_env w)(''OTEL_SERVICE_NAME'' \<mapsto> applicationName o') else w_env w), w_telemetry = tel2,
       w_metrics = w_metrics (initializeMetricsSingleton w)\<rparr>)"
    and "w_telemetry w = Telemetry_init \<longrightarrow> (exportLogs o' \<longleftrightarrow> otel_LoggerProvider tel2 \<noteq> None) \<and>
      (exportMetrics o' \<longleftrightarrow> otel_MeterProvider tel2 \<noteq> None) \<and>
      metrics_cleanup (logger_cleanup tel2) = Telemetry_init"
proof -
  from assms(3,4) obtain t where t: "read_ini (w_disk w) f = Inr t"
    by (auto simp: parseIniFile_def split: sum.splits)
  have "g \<or> exportLogsWithHTTP o' \<and> exportMetricsWithHTTP o'"
    by (rule parse_result_members(7) [where read_ini = read_ini and f = f and disk = "w_disk w" and E = E
          and T = T, OF assms(3) t]) (simp add: assms(4))
  then obtain l tel1 tel2 where tel: "logger_initialize g (path_exists E disk') o' (w_telemetry w) = Inr (l, tel1)"
    "metrics_initialize g o' tel1 = Inr tel2"
    and tel1: "loggerProvider tel1 = (if exportLogs o' then otel_LoggerProvider tel1 else loggerProvider (w_telemetry w))"
    "exportLogs o' \<longrightarrow> loggerProvider tel1 \<noteq> None" "\<not> exportLogs o' \<longrightarrow> tel1 = w_telemetry w"
    and tel2: "loggerProvider tel2 = loggerProvider tel1" "otel_LoggerProvider tel2 = otel_LoggerProvider tel1"
    "exportMetrics o' \<longrightarrow> metricsInitialized tel2 \<and> otel_MeterProvider tel2 \<noteq> None"
    "\<not> exportMetrics o' \<longrightarrow> tel2 = tel1"
    "metricsInitialized tel1 = metricsInitialized (w_telemetry w)"
    "otel_MeterProvider tel1 = otel_MeterProvider (w_telemetry w)"
    by (rule initialize_accepted)
  have "metrics_cleanup (logger_cleanup tel2) = Telemetry_init" if "w_telemetry w = Telemetry_init"
    using that tel1 tel2 by (cases tel2; cases "exportLogs o'"; cases "exportMetrics o'")
      (auto simp: metrics_cleanup_def logger_cleanup_def Telemetry_init_def)
  with main_program_file [where parse = parse and argv = argv and f = f and E = E and w = w and g = g
      and T = T and read_ini = read_ini, OF assms tel] tel1 tel2 show thesis
    by (intro that) (auto simp: Telemetry_init_def)
qed

text \<open>C37.  The exit code.  The program exits with success exactly when it was asked for help or was given
  an existing initialization file that is accepted: once a file is accepted, no error of the program's
  own is left in setting up the export of logs and metrics, whatever the program was built with.\<close>

theorem main_exit_code:
  "fst (main_program g parse E T read_ini argv w) = EXIT_SUCCESS \<longleftrightarrow>
    (case parse argv of
       Inl e \<Rightarrow> False
     | Inr (True, ini) \<Rightarrow> True
     | Inr (False, None) \<Rightarrow> False
     | Inr (False, Some f) \<Rightarrow> f \<noteq> [] \<and> path_exists E (w_disk w) f \<and>
         (\<exists>o'. fst (parseIniFile g E T read_ini f (w_disk w)) = Inr o'))"
proof (cases "parse argv")
  case (Inl e)
  with main_program_cases [where parse = parse and argv = argv and g = g and E = E and T = T
      and read_ini = read_ini and w = w] show ?thesis by simp
next
  case (Inr x)
  note outcome = main_program_cases [where parse = parse and argv = argv and g = g and E = E and T = T
      and read_ini = read_ini and w = w, unfolded Inr]
  obtain isHelp ini_file where x: "x = (isHelp, ini_file)" by (cases x)
  show ?thesis
  proof (cases "\<not> isHelp \<and> ini_file \<noteq> None")
    case False
    with outcome Inr x show ?thesis by (cases isHelp; cases ini_file) simp_all
  next
    case True
    then obtain f where f: "parse argv = Inr (False, Some f)" using Inr x by auto
    obtain r disk' where p: "parseIniFile g E T read_ini f (w_disk w) = (r, disk')" by (meson surj_pair)
    show ?thesis
    proof (cases "f \<noteq> [] \<and> path_exists E (w_disk w) f \<and> (\<exists>o'. r = Inr o')")
      case True
      then obtain o' where "f \<noteq> []" "path_exists E (w_disk w) f"
        "parseIniFile g E T read_ini f (w_disk w) = (Inr o', disk')" using p by auto
      from main_program_accepted [where parse = parse and argv = argv and E = E and w = w and f = f
          and g = g and T = T and read_ini = read_ini, OF f this] have
        "fst (main_program g parse E T read_ini argv w) = EXIT_SUCCESS" by (metis fst_conv)
      with True f p show ?thesis by simp
    next
      case False
      then have "f = [] \<or> \<not> path_exists E (w_disk w) f \<or> (\<exists>e. r = Inl e)" by (cases r) auto
      with outcome f p Inr have "fst (main_program g parse E T read_ini argv w) = EXIT_FAILURE"
        by simp
      with False f p show ?thesis by simp
    qed
  qed
qed

text \<open>C38.  What a successful run with a file leaves behind.  The files are those the reading of the options
  left (no store is opened, no broker is created), the service name is set for OpenTelemetry unless it
  was, and the exporters the file asks for are installed and still there at the exit, although the two
  clean-up functions, which the program calls on its error paths only, would remove them.  The metrics
  singleton exists, with the counters it had or with zeros.\<close>

theorem main_leaves_exporters:
  assumes "parse argv = Inr (False, Some f)" "w_telemetry w = Telemetry_init"
    and "main_program g parse E T read_ini argv w = (EXIT_SUCCESS, w')"
  shows "\<exists>o'. parseIniFile g E T read_ini f (w_disk w) = (Inr o', w_disk w') \<and>
    w_env w' = (if w_env w ''OTEL_SERVICE_NAME'' = None
                then (w_env w)(''OTEL_SERVICE_NAME'' \<mapsto> applicationName o') else w_env w) \<and>
    (exportLogs o' \<longleftrightarrow> otel_LoggerProvider (w_telemetry w') \<noteq> None) \<and>
    (exportMetrics o' \<longleftrightarrow> otel_MeterProvider (w_telemetry w') \<noteq> None) \<and>
    metrics_cleanup (logger_cleanup (w_telemetry w')) = Telemetry_init \<and>
    w_metrics w' = Some (case w_metrics w of None \<Rightarrow> MetricsSingleton_init | Some m \<Rightarrow> m)"
proof -
  from main_program_cases [where parse = parse and argv = argv and g = g and E = E and T = T and read_ini = read_ini and w = w] assms(1,3)
  have f: "f \<noteq> []" "path_exists E (w_disk w) f" "\<nexists>e. fst (parseIniFile g E T read_ini f (w_disk w)) = Inl e"
    by (auto split: if_splits)
  then obtain o' disk' where p: "parseIniFile g E T read_ini f (w_disk w) = (Inr o', disk')"
    by (metis prod.collapse sum.exhaust)
  from main_program_accepted [where parse = parse and argv = argv and E = E and w = w and f = f
      and g = g and T = T and read_ini = read_ini, OF assms(1) f(1,2) p] obtain tel2 where
    "main_program g parse E T read_ini argv w =
      (EXIT_SUCCESS, \<lparr>w_disk = disk', w_env = (if w_env w ''OTEL_SERVICE_NAME'' = None
       then (w_env w)(''OTEL_SERVICE_NAME'' \<mapsto> applicationName o') else w_env w), w_telemetry = tel2,
       w_metrics = w_metrics (initializeMetricsSingleton w)\<rparr>)"
    "w_telemetry w = Telemetry_init \<longrightarrow> (exportLogs o' \<longleftrightarrow> otel_LoggerProvider tel2 \<noteq> None) \<and>
      (exportMetrics o' \<longleftrightarrow> otel_MeterProvider tel2 \<noteq> None) \<and>
      metrics_cleanup (logger_cleanup tel2) = Telemetry_init" by blast
  with p assms(2,3) show ?thesis by (intro exI [of _ o']) (auto simp: initializeMetricsSingleton_def)
qed

definition demo_world :: "string list World" where
  "demo_world = \<lparr>w_disk = [''b.ini''], w_env = Map.empty, w_telemetry = Telemetry_init,
     w_metrics = None\<rparr>"

theorem main_leaves_exporters_witness:
  "\<exists>w'. main_program False (\<lambda>argv. Inr (False, Some argv)) demo_env demo_translators demo_read_ini
       ''b.ini'' demo_world = (EXIT_SUCCESS, w') \<and> otel_LoggerProvider (w_telemetry w') \<noteq> None"
proof -
  let ?parse = "\<lambda>argv. Inr (False, Some argv)"
  obtain disk' where p: "parseIniFile False demo_env demo_translators demo_read_ini ''b.ini'' [''b.ini''] =
      (Inr demo_options, disk')"
    using demo_options by (metis prod.collapse)
  obtain w' where w': "main_program False ?parse demo_env demo_translators demo_read_ini ''b.ini'' demo_world =
      (EXIT_SUCCESS, w')"
    by (rule main_program_accepted [of ?parse "''b.ini''" "''b.ini''" demo_env demo_world False demo_translators
          demo_read_ini demo_options disk']) (simp_all add: demo_world_def demo_exists p)
  have "exportLogs demo_options"
    using parse_result_members(8) [OF demo_exists _ demo_options] by (simp add: demo_read_ini_def demo_tree_def)
  with main_leaves_exporters [OF _ _ w', of "''b.ini''"] p w' show ?thesis
    by (auto simp: demo_world_def)
qed

end
