(* ===== verification/Spec2Isabelle.thy ===== *)
theory Spec2Isabelle
  imports Broker_Sessions Broker_Liveness Rocks_Refinement Rocks_Durability Rocks_Race Option_Wellformed Program_System
begin

text \<open>
  \<^bold>\<open>A verification library for uDataPacketBroker.\<close>

  The broker receives seismic data packets over a gRPC publish service, numbers them, keeps them in
  a RocksDB store and is meant to hand them to subscribers.  This library models the C++ code under
  \<open>src/src\<close> and \<open>src/include\<close> and proves what it does.

  \<^bold>\<open>Parts and theories.\<close>  Definitions keep the names of the C++ functions and members.
  \<^item> \<open>Broker_Prelude\<close>: machine integers, exceptions as a sum type, big-endian numbers.
  \<^item> \<open>Messages\<close>: the protobuf messages of \<open>uDataPacketBrokerAPI/v1\<close> with field presence.
  \<^item> \<open>Keys\<close> (\<open>utilities.cpp\<close>): stream and packet keys, their decoding, packet validation.
  \<^item> \<open>Options\<close> (\<open>*Options.cpp\<close>): the option classes, their defaults and checked setters.
    \<open>Option_Handles\<close>: the objects with their pointer to the implementation and the special members;
    \<open>Option_Wellformed\<close>: what every object built by a program satisfies.
  \<^item> \<open>Rocks_Api\<close>: RocksDB as a record of functions, with its documented laws as locale
    \<open>rocks_api\<close> and an in-memory instance.  RocksDB itself is not in the repository.
  \<^item> \<open>Rocks_Database\<close> (\<open>rocksDatabase.cpp\<close>): the store.  \<open>Rocks_Store\<close> and \<open>Rocks_Truncate\<close> hold the
    lemmas on its contents, \<open>Rocks_Properties\<close> its properties and the relation \<open>store_reachable\<close>.
    \<open>Rocks_Refinement\<close> states what the store promises as an abstract table of packets and stream
    ranges (\<open>spec_step\<close>), which refuses a command exactly when the database reports a failed write,
    and the abstraction function from the database to it.
    \<open>Rocks_Durability\<close> says what a crash leaves: locale \<open>rocks_durable\<close> extends \<open>rocks_api\<close> by the
    documented laws of the write-ahead log and of flushes, \<open>rocks_flushing\<close> by the option
    \<open>atomic_flush\<close> the database was opened with, and \<open>disk_rocks\<close> is their instance.
    \<open>Rocks_Race\<close> cuts \<open>write\<close> and \<open>truncateOldest\<close> at their call of RocksDB's \<open>Write\<close>
    (\<open>truncate_plan\<close>, \<open>truncate_commit\<close>, \<open>write_commit\<close>) and lets the producer thread and the monitor
    thread overtake each other.
  \<^item> \<open>Data_Packet_Store\<close> (\<open>dataPacketStore.cpp\<close>): the store interface as a record of operations, its
    contract as locale \<open>data_store\<close>, and the RocksDB store as an interpretation of it.
  \<^item> \<open>Metrics\<close> (\<open>metricsSingleton.cpp\<close>, \<open>version.cpp\<close>).
  \<^item> \<open>Publish_Service\<close> (\<open>publishService.cpp\<close>): the reactor of a call and the service.
    \<open>Publish_System\<close>: sessions of one client, \<open>publish_step\<close>, the interleaving of any number of
    calls (\<open>handler_step\<close> for the handlers that leave the broker alone, cancellations included, \<open>read_step\<close> for the one that
    hands it a packet), with its invariant, and the locale \<open>packet_landing\<close>, what the service expects of the
    callback that takes its packets; \<open>Broker_System\<close> interprets it on the broker's callback.
  \<^item> \<open>Broker\<close> (\<open>broker.cpp\<close>): the broker, a definition per handler or round of a thread, and
    \<open>broker_step\<close>, the interleaving of arriving packets and of the threads (\<open>broker_thread_step\<close>),
    with \<open>stop\<close> in the stages the other threads can see (\<open>stop_step\<close>).
    \<open>Broker_System\<close>: its invariant and properties.  \<open>Broker_Pipeline\<close>: histories of the broker with
    the packets that arrived, and where each of them is.  \<open>Broker_Liveness\<close>: endless runs in which the
    propagator is not starved (\<open>fair_run\<close>).  \<open>Broker_Sessions\<close>: any number of publish
    calls on a broker whose threads run, \<open>session_run\<close>.
  \<^item> \<open>Program_Options\<close> (\<open>otelOptions.hpp\<close>, \<open>programOptions.hpp\<close>): the command line and the
    initialization file, with a parsed file as the data at each path.
  \<^item> \<open>Program\<close> (\<open>logger.hpp\<close>, \<open>metrics.hpp\<close>, \<open>otelSpdlogSink.hpp\<close>, \<open>main.cpp\<close>): exporters, the process
    around the broker and \<open>main\<close>.  \<open>Program_System\<close>: their properties.
  \<^item> This theory: properties that span components.

  \<^bold>\<open>State.\<close>  A class is a record of its members, a method takes the record and returns the
  new one; an exception is an \<open>Inl\<close>.  Sequence numbers and sizes are 64-bit words, so
  wrap-around is in the model.  A section under a mutex is one step.  The database pointer, gRPC,
  the clock and the file system are parameters.  The shared counters of the publish service are
  passed explicitly, so that constructors of concurrent calls can interleave between the test
  and the increment of the publisher count.

  \<^bold>\<open>What is shown.\<close>  Keys: layout, round trip, order, injectivity.  Options:
  the objects behave as values, nothing is shared or leaked, and whatever is built is well-formed.  Store: an invariant of
  every reachable store; the exact effect of writing, querying, listing and truncating in terms of
  the abstract map \<open>stored\<close> from (stream, number) to (receipt time, bytes); atomicity of writes;
  the refinement of the abstract table by every run of commands; what comes back after a crash, with
  and without the write-ahead log; what remains true when a truncation and a write overtake each other
  (exact purging, consistent writes) and what does not (a forgotten stream); independence of the iteration order of the aggregates; the wrap of the truncation cutoff.  Publish
  service: admission, what a session tells its client, the count of publishers under every
  interleaving, and where that count goes wrong.  Broker: bounded queues and consecutive numbers
  under every interleaving, the exact effect of importing and propagating, order and conservation of the packets on their way
  through the queues, progress of every packet under fairness, true acknowledgements under concurrent calls, termination of the
  truncation round on every store with numbers below \<open>2 ^ 63\<close>, freshness of numbers after a restart.
  Program: which initialization files are accepted and what they give, the exit code of \<open>main\<close> and
  what it leaves behind, and the end of a process that is started.


  \<^bold>\<open>What the code gets wrong\<close> is stated as theorems about the faithful model:
  \<open>write_one_answers_inverted\<close>, \<open>addPacketCallback_effect\<close>, \<open>process_shuts_down_at_once\<close>,
  \<open>writePacketsToDataStore_hangs\<close>, \<open>broker_never_stores\<close>, \<open>broker_never_constructed\<close>,
  \<open>truncate_wraps_without_deleting\<close>, \<open>compact_keeps_everything\<close>, \<open>publisher_limit_race\<close>,
  \<open>crash_without_log_splits_registry\<close>, \<open>overtaken_truncation_forgets_stream\<close>,
  \<open>stop_service_then_done\<close>, \<open>process_of_file_crashes\<close>.  Since no client can build options the
  broker's constructor accepts, the properties of the running broker start from options that also
  have the subscribe flag set.

  \<^bold>\<open>Loops.\<close>  Loops over containers are structural recursion or folds.  \<open>truncate_loop\<close> and
  \<open>drain_loop\<close> are \<open>partial_function (option)\<close>, \<open>None\<close> meaning that they do not end: the first is
  proved to end on every store that keeps the contract \<open>data_store\<close> (for RocksDB: registered numbers
  and chunk below \<open>2 ^ 63\<close>), the second to end exactly
  on the empty queue.  No fuel is used.

  \<^bold>\<open>Not modelled.\<close>  The subscribe service, which the repository declares in protobuf files without an
  implementation; gRPC, RocksDB, spdlog, OpenTelemetry and Boost, which are parameters or are known by
  what they are configured with; messages that are only logged; mutex-level interleavings inside a
  critical section; exceptions that spdlog and OpenTelemetry may throw when \<open>main\<close> sets them up; the
  calls of \<open>notify_all\<close> and \<open>sleep_for\<close>, which only decide when a step happens.  Serialization of packets belongs to protobuf and is the parameter \<open>ser\<close>.  The
  public classes forward to their implementation and are modelled as it; getters are the selectors of
  the records.  RocksDB's read errors do not exist in the model, and the code
  does not look at them (it never asks an iterator for its status).  The
  \<open>ttl\<close> given to the column families is in their configuration; the laws of \<open>rocks_api\<close> are those of
  the default compaction style, which rewrites old files and keeps their entries.  The
  utilization that the service writes to the metrics is computed in \<open>Publish_Service\<close> and not related
  to the counters of the broker, and \<open>getNow\<close> and the signal handler's flag are inputs.
\<close>

section \<open>Truncation of the RocksDB store by the broker\<close>

lemma next_interval_bounds:
  "10 \<le> c \<Longrightarrow> c \<le> i \<Longrightarrow> 10 \<le> next_interval i n c \<and> next_interval i n c \<le> i"
  by (auto simp: next_interval_def minimumInterval_def)

text \<open>C17.  A round of the truncation thread ends, on a RocksDB store whose registered numbers are below
  \<open>2 ^ 63\<close> (a part of \<open>rocks_good\<close>) and with a chunk below \<open>2 ^ 63\<close>, for every size limit: the store stays
  well-formed, packets are only removed, and the end is an error, a size within the limit, or the store
  after a \<open>truncateOldest\<close> that answered zero, because there was nothing to truncate or because the
  database refused to delete.  The interval to the next round stays between ten milliseconds and the
  configured interval.  Beyond these bounds \<open>truncateOldest\<close> can report progress without deleting
  anything (\<open>truncate_wraps_without_deleting\<close>), and nothing is claimed.\<close>

theorem truncation_round_ends:
  assumes "rocks_api R contents" "rocks_good contents (br_mDataPacketStore b)"
    and "of_int (mTruncationChunkSize (br_mOptions b)) < sequence_limit"
    and "10 \<le> interval" "interval \<le> mTruncationBaseInterval (br_mOptions b) * 1000"
  shows "\<exists>r b'. truncate_round (RocksStore R ser) interval b = Some (r, b') \<and>
    rocks_good contents (br_mDataPacketStore b') \<and>
    (\<forall>i q. keyable i \<longrightarrow>
       stored (contents (database (br_mDataPacketStore b'))) i q = None \<or>
       stored (contents (database (br_mDataPacketStore b'))) i q =
       stored (contents (database (br_mDataPacketStore b))) i q) \<and>
    (\<forall>next. r = Inr next \<longrightarrow> 10 \<le> next \<and> next \<le> mTruncationBaseInterval (br_mOptions b) * 1000 \<and>
       (\<forall>d. mDesiredMaximumDataStoreSizeInBytes (br_mOptions b) = Some d \<longrightarrow>
          (\<exists>sz. getSizeInBytes R (br_mDataPacketStore b') = Inr sz \<and> sz \<le> d) \<or>
          (\<exists>s. rocks_good contents s \<and> truncateOldest R (of_int (mTruncationChunkSize (br_mOptions b))) s =
                 (Inr 0, br_mDataPacketStore b'))))"
proof (cases "mDesiredMaximumDataStoreSizeInBytes (br_mOptions b)")
  case None
  with assms show ?thesis by (simp add: truncate_round_def Let_def)
next
  case (Some d)
  note store = RocksStore_contract [OF assms(1), of ser]
  let ?chunk = "of_int (mTruncationChunkSize (br_mOptions b)) :: u64"
  obtain r s where loop: "truncate_loop (RocksStore R ser) d ?chunk 0 (br_mDataPacketStore b) = Some (r, s)"
    "rocks_good contents s" "\<forall>i q. rocks_lookup contents s i q = None \<or>
       rocks_lookup contents s i q = rocks_lookup contents (br_mDataPacketStore b) i q"
    using data_store.truncate_loop_ends [OF store assms(2,3)] by blast
  have kept: "stored (contents (database s)) i q = None \<or>
      stored (contents (database s)) i q = stored (contents (database (br_mDataPacketStore b))) i q"
    if "keyable i" for i q using loop(3) [rule_format, of i q] that by (simp add: rocks_lookup_def)
  show ?thesis
  proof (cases r)
    case (Inl e)
    with loop(1,2) kept Some show ?thesis by (simp add: truncate_round_def Let_def)
  next
    case (Inr n)
    note size = data_store.truncate_loop_size [OF store assms(2,3) loop(1) [unfolded Inr]]
    from Inr loop(1,2) kept Some size next_interval_bounds [OF assms(4,5), of n] show ?thesis
      by (auto simp: truncate_round_def Let_def)
  qed
qed

theorem truncation_round_ends_witness:
  "\<exists>r b'. truncate_round (RocksStore mem_rocks demo_ser) 30000 demo_broker = Some (r, b')"
proof -
  have "br_mOptions demo_broker = demo_broker_options \<and> br_mDataPacketStore demo_broker = demo_store"
    using demo_construct construct_members start_simps by metis
  then show ?thesis
    using truncation_round_ends [OF mem.rocks_api_axioms, of demo_broker 30000 demo_ser] demo_store_good
    by (auto simp: demo_broker_options_def setPublishServiceOptions_def BrokerOptions_init_def
        sequence_limit_def)
qed

section \<open>The broker on the RocksDB store\<close>

text \<open>C32.  No packet ever reaches the data packet store: whatever the running broker does, a stream
  and number is bound to what it was bound to when the broker was constructed, or to nothing; and
  the publish service of a running broker never listens, so no client reaches it.\<close>

theorem broker_never_stores:
  assumes "rocks_api R contents" "rocks_good contents store"
    and "of_int (mTruncationChunkSize options) < sequence_limit"
    and "broker_reachable (RocksStore R ser) options store b" "keyable i"
  shows "(stored (contents (database (br_mDataPacketStore b))) i q = None \<or>
          stored (contents (database (br_mDataPacketStore b))) i q = stored (contents (database store)) i q) \<and>
         \<not> listening b"
proof -
  note s = data_store.broker_reachable_store [OF RocksStore_contract [OF assms(1)] assms(4,2,3)]
  then have "rocks_lookup contents (br_mDataPacketStore b) i q = None \<or>
      rocks_lookup contents (br_mDataPacketStore b) i q = rocks_lookup contents store i q" by blast
  with assms(5) broker_never_listens [OF assms(4)] show ?thesis by (simp add: rocks_lookup_def)
qed

theorem broker_never_stores_witness:
  "stored (mem_contents (database (br_mDataPacketStore demo_broker))) demo_id 6 = None"
  using broker_never_stores [OF mem.rocks_api_axioms demo_store_good _ demo_broker_reachable keyable_demo_id, of 6]
  by (simp add: demo_stored demo_broker_options_def setPublishServiceOptions_def BrokerOptions_init_def
      sequence_limit_def)

text \<open>The numbers given out after \<open>g\<close> are above it while the counter does not wrap.\<close>

lemma above_start: "0 < k \<Longrightarrow> unat g + k < 2 ^ 64 \<Longrightarrow> q \<le> g \<Longrightarrow> q < (g :: u64) + of_nat k"
  by (simp add: word_le_nat_alt word_less_nat_alt unat_word_ariths unat_of_nat)

lemma renumbered_numbers:
  "p \<in> set (renumbered g ts) \<Longrightarrow> \<exists>k. 0 < k \<and> k \<le> length ts \<and> sequence_number p = g + of_nat k"
proof (induction ts arbitrary: g)
  case (Cons t ts)
  show ?case
  proof (cases "p \<in> set (renumbered (g + 1) ts)")
    case True
    with Cons.IH obtain k where "0 < k" "k \<le> length ts" "sequence_number p = g + 1 + of_nat k" by blast
    then show ?thesis by (intro exI [of _ "Suc k"]) (simp add: add.assoc)
  next
    case False
    with Cons.prems show ?thesis by (intro exI [of _ 1]) simp
  qed
qed simp

text \<open>C24.  Restart does not reuse numbers: a broker constructed on a store whose global number is \<open>g\<close>
  continues from it.  Whatever has arrived and been done since, unless so many packets have arrived
  that the 64-bit counter wraps, the number it gives to the next packet, and those of all the packets
  in its outgoing queues, are larger than the number of every packet then in the store.\<close>

theorem next_number_is_fresh:
  assumes "rocks_api R contents" "rocks_good contents store"
    and "of_int (mTruncationChunkSize options) < sequence_limit"
    and "Broker_construct (RocksStore R ser) options (Some store) m = Inr b0"
    and "broker_history (RocksStore R ser) b0 arr b"
    and "getGlobalSequenceNumber R store = Inr g" "unat g + length arr + 1 < 2 ^ 64"
    and "keyable i" "stored (contents (database (br_mDataPacketStore b))) i q \<noteq> None"
  shows "q < sequence_number (last (br_mPublishQueue (propagate_publish now p b))) \<and>
    (\<forall>p' \<in> set (br_mPublishQueue b) \<union> snd ` set (br_mDataPacketStoreQueue b). q < sequence_number p')"
proof -
  have "rocks_lookup contents (br_mDataPacketStore b) i q = None \<or>
      rocks_lookup contents (br_mDataPacketStore b) i q = rocks_lookup contents store i q"
    using data_store.broker_reachable_store [OF RocksStore_contract [OF assms(1)]
        broker_history_reachable [OF assms(5,4)] assms(2,3)] by blast
  with assms(8,9) have "stored (contents (database store)) i q \<noteq> None"
    by (auto simp: rocks_lookup_def)
  then have q: "q \<le> g"
    using rocks_api.stored_le_global [OF assms(1), of store i q] assms(2,6,8) by (auto simp: rocks_good_def)
  have g: "br_mGlobalSequenceNumber b0 = g"
    using construct_members [OF assms(4)] assms(6) by (simp add: RocksStore_def)
  from broker_history_pipeline [OF assms(4,5)] obtain ts ns where pl: "pipeline b0 arr ts ns b" by blast
  have ts: "length ts \<le> length arr"
    using pl list_emb_length by (fastforce simp: pipeline_def)
  have "br_mGlobalSequenceNumber b + 1 = g + of_nat (Suc (length ts))"
    using pl g by (simp add: pipeline_def add.assoc)
  then have "q < br_mGlobalSequenceNumber b + 1"
    using above_start [of "Suc (length ts)" g q] q ts assms(7) by (simp del: of_nat_Suc)
  then have "q < sequence_number (last (br_mPublishQueue (propagate_publish now p b)))"
    by (simp add: propagate_publish_def Let_def split: prod.split)
  moreover have "q < sequence_number p'" if "p' \<in> set (renumbered g ts)" for p'
    using renumbered_numbers [OF that] above_start [of _ g q] q ts assms(7) by fastforce
  moreover have "set (br_mPublishQueue b) \<union> snd ` set (br_mDataPacketStoreQueue b) \<subseteq> set (renumbered g ts)"
    using pl g set_mono_suffix by (fastforce simp: pipeline_def)
  ultimately show ?thesis by blast
qed

theorem next_number_is_fresh_witness:
  "\<exists>b0 b. Broker_construct (RocksStore mem_rocks demo_ser) demo_broker_options
      (Some demo_store) MetricsSingleton_init = Inr b0 \<and>
     broker_history (RocksStore mem_rocks demo_ser) b0 [demo_valid] b \<and>
     5 < sequence_number (last (br_mPublishQueue (propagate_publish 9 demo_valid b))) \<and>
     5 < sequence_number (last (br_mPublishQueue b))"
proof -
  obtain b0 b where r: "Broker_construct (RocksStore mem_rocks demo_ser) demo_broker_options
      (Some demo_store) MetricsSingleton_init = Inr b0"
    "broker_history (RocksStore mem_rocks demo_ser) b0 [demo_valid] b"
    "br_mPublishQueue b = [set_sequence_number demo_valid 6]"
    "br_mDataPacketStore b = demo_store" by (rule demo_run)
  from next_number_is_fresh [OF mem.rocks_api_axioms demo_store_good _ r(1,2) demo_global _ keyable_demo_id, of 5]
  show ?thesis using r
    by (intro exI [of _ b0] exI [of _ b])
      (simp add: demo_stored demo_broker_options_def setPublishServiceOptions_def BrokerOptions_init_def
        sequence_limit_def)
qed

section \<open>A publish session on the broker\<close>

text \<open>C6.  The publish service on the broker: while the import queue has room, a session without a
  run of invalid packets beyond the limit puts exactly the valid packets into the import
  queue, in the order sent, and its response tells the client how many packets arrived, how
  many were invalid, and the stream and number of the last valid one.\<close>

theorem publish_session_imports:
  assumes "br_mMaximumImportQueueSize b = 8192" "length (br_mImportQueue b) + length ps \<le> 8193"
    and "\<not> invalid_run (unat (mMaximumConsecutiveInvalidMessages options))
           (map (\<lambda>p. if is_valid p then Accepted else Invalid) ps)"
  shows "let r = fst (reader_register True (reader_init options) (n, m));
             (r', b') = read_session addPacketCallback ps (r, b) in
    br_mImportQueue b' = br_mImportQueue b @ filter is_valid ps \<and>
    last (ar_calls r') = Finish OK [] \<and>
    pr_total_packets (ar_mResponse r') = of_nat (length ps) \<and>
    pr_invalid_packets (ar_mResponse r') = of_nat (length (filter (\<lambda>p. \<not> is_valid p) ps)) \<and>
    pr_last_packet_identifier (ar_mResponse r') =
      Some (if filter is_valid ps = [] then empty_last_packet else identifier_of (last (filter is_valid ps)))"
  using assms by (intro broker_landing.session_imports) (simp_all add: import_room_def)

theorem publish_session_imports_witness:
  "let r = fst (reader_register True (reader_init demo_publish_options) (0, MetricsSingleton_init));
       (r', b') = read_session addPacketCallback [demo_valid, empty_packet] (r, demo_broker) in
   br_mImportQueue b' = [demo_valid] \<and> pr_invalid_packets (ar_mResponse r') = 1 \<and>
   pr_last_packet_identifier (ar_mResponse r') = Some (identifier_of demo_valid)"
proof -
  have valid: "is_valid demo_valid" using isValid_demo_valid unfolding is_valid_def by blast
  have invalid: "\<not> is_valid empty_packet" by (simp add: is_valid_def isValid_def empty_packet_def)
  have "\<not> invalid_run 1 [Accepted, Invalid]"
    by (simp add: invalid_run_Cons invalid_run_Nil)
  then show ?thesis
    using publish_session_imports [of demo_broker "[demo_valid, empty_packet]" demo_publish_options 0
        MetricsSingleton_init] valid invalid
    by (auto simp: Let_def split: prod.splits)
qed

end
